theory Spec2Isabelle
  imports Complex_Main "HOL-Library.Word"
begin

unbundle bit_operations_syntax

section \<open>Common types\<close>

type_synonym u8 = "8 word"
type_synonym u16 = "16 word"
type_synonym u32 = "32 word"

text \<open>The three exception types of libzmf\_utils (\<open>EndOfStreamException\<close>,
  \<open>GenericException\<close> and the file-local \<open>SeekFailedException\<close>).  A fourth value
  stands for a failed \<open>BOOST_ASSERT\<close>, which is what \<open>boost::get\<close> on an empty optional
  runs into.\<close>

datatype error = EndOfStreamException | SeekFailedException | GenericException
  | AssertionFailure

section \<open>ZMFTypes.h: colours\<close>

record Color =
  red :: u8
  green :: u8
  blue :: u8

definition Color_default :: Color where
  "Color_default = \<lparr>red = 0, green = 0, blue = 0\<rparr>"

section \<open>ZMFTypes.h: curves\<close>

datatype CurveType = LINE | BEZIER_CURVE

record Point =
  p_x :: real
  p_y :: real


text \<open>The invariant of the data model: a LINE section consumes one point, a BEZIER\_CURVE
  section three, and the sections together consume at most all points but the first.\<close>

fun section_points :: "CurveType \<Rightarrow> int" where
  "section_points LINE = 1"
| "section_points BEZIER_CURVE = 3"

definition points_consumed :: "CurveType list \<Rightarrow> int" where
  "points_consumed ts = sum_list (map section_points ts)"


section \<open>BMIHeader.cpp: reconciliation of bitmap dimensions\<close>

text \<open>\<open>reconcileValue\<close> takes three \<open>unsigned &\<close> and returns a \<open>bool\<close>; the model
  returns the flag together with the three variables as they are on return.\<close>

definition reconcileValue :: "u32 \<Rightarrow> u32 \<Rightarrow> u32 \<Rightarrow> bool \<times> u32 \<times> u32 \<times> u32" where
  "reconcileValue v1 v2 v3 =
     (if v1 = v2 then
        (if v2 \<noteq> v3 then (True, v1, v2, v1) else (True, v1, v2, v3))
      else if v1 = v3 then (True, v1, v1, v3)
      else if v2 = v3 then (True, v2, v2, v3)
      else (False, v1, v2, v3))"

text \<open>The majority value of three: the value that at least two of them have, when two do.\<close>

definition majority :: "u32 \<Rightarrow> u32 \<Rightarrow> u32 \<Rightarrow> u32" where
  "majority v1 v2 v3 = (if v1 = v2 \<or> v1 = v3 then v1 else v2)"

definition two_agree :: "u32 \<Rightarrow> u32 \<Rightarrow> u32 \<Rightarrow> bool" where
  "two_agree v1 v2 v3 = (v1 = v2 \<or> v1 = v3 \<or> v2 = v3)"

record BMIHeader =
  m_size :: u32
  m_startOffset :: u32
  m_width :: u32
  m_height :: u32
  m_isPaletteMode :: bool
  m_colorDepth :: u32

record ColorBitmapHeader =
  cb_width :: u32
  cb_height :: u32
  cb_colorDepth :: u32
  cb_startOffset :: u32
  cb_endOffset :: u32

definition reconcileWidth :: "BMIHeader \<Rightarrow> u32 \<Rightarrow> u32 \<Rightarrow> bool \<times> BMIHeader \<times> u32 \<times> u32" where
  "reconcileWidth hdr colorWidth transparencyWidth =
     (case reconcileValue (m_width hdr) colorWidth transparencyWidth of
        (ok, w, c, t) \<Rightarrow> (ok, hdr\<lparr>m_width := w\<rparr>, c, t))"

definition reconcileHeight :: "BMIHeader \<Rightarrow> u32 \<Rightarrow> u32 \<Rightarrow> bool \<times> BMIHeader \<times> u32 \<times> u32" where
  "reconcileHeight hdr colorHeight transparencyHeight =
     (case reconcileValue (m_height hdr) colorHeight transparencyHeight of
        (ok, h, c, t) \<Rightarrow> (ok, hdr\<lparr>m_height := h\<rparr>, c, t))"

text \<open>\<open>BMIParser::reconcileDimensions\<close>: \<open>reconcileWidth(...) && reconcileHeight(...)\<close>.
  The conjunction short-circuits, so the heights are left alone when the widths fail.\<close>

definition reconcileDimensions ::
  "BMIHeader \<Rightarrow> ColorBitmapHeader \<Rightarrow> ColorBitmapHeader
     \<Rightarrow> bool \<times> BMIHeader \<times> ColorBitmapHeader \<times> ColorBitmapHeader" where
  "reconcileDimensions hdr colorHeader transparencyHeader =
     (case reconcileWidth hdr (cb_width colorHeader) (cb_width transparencyHeader) of
        (okw, hdr1, cw, tw) \<Rightarrow>
          let c1 = colorHeader\<lparr>cb_width := cw\<rparr>; t1 = transparencyHeader\<lparr>cb_width := tw\<rparr> in
          if \<not> okw then (False, hdr1, c1, t1)
          else (case reconcileHeight hdr1 (cb_height c1) (cb_height t1) of
                  (okh, hdr2, ch, th) \<Rightarrow>
                    (okh, hdr2, c1\<lparr>cb_height := ch\<rparr>, t1\<lparr>cb_height := th\<rparr>)))"

record Image =
  img_width :: u32
  img_height :: u32
  img_data :: "u8 list"

definition Image_empty :: Image where
  "Image_empty = \<lparr>img_width = 0, img_height = 0, img_data = []\<rparr>"

text \<open>\<open>BMIParser::readImage\<close> from the point where the header is loaded and the offsets
  loop has parsed the colour sub-header and, from a second BITMAP offset, the transparency
  sub-header.  Decoding the pixels and encoding the PNG (\<open>readColorBitmap\<close> over zlib,
  \<open>makePng\<close> over libpng) is the parameter \<open>decode\<close>; it receives the reconciled
  headers.\<close>

definition readImage_headers ::
  "(BMIHeader \<Rightarrow> ColorBitmapHeader \<Rightarrow> ColorBitmapHeader option \<Rightarrow> Image)
     \<Rightarrow> BMIHeader \<Rightarrow> ColorBitmapHeader option \<Rightarrow> ColorBitmapHeader option \<Rightarrow> Image" where
  "readImage_headers decode hdr bitmapHeader transparencyBitmapHeader =
     (case bitmapHeader of
        None \<Rightarrow> Image_empty
      | Some bh \<Rightarrow>
          (case transparencyBitmapHeader of
             None \<Rightarrow> decode hdr bh None
           | Some th \<Rightarrow>
               (case reconcileDimensions hdr bh th of
                  (ok, hdr', bh', th') \<Rightarrow>
                    if \<not> ok then Image_empty else decode hdr' bh' (Some th'))))"

text \<open>Concrete headers for the worked examples.\<close>

definition wit_hdr :: BMIHeader where
  "wit_hdr = \<lparr>m_size = 0, m_startOffset = 0, m_width = 640, m_height = 480,
     m_isPaletteMode = False, m_colorDepth = 24\<rparr>"

definition wit_cb :: "u32 \<Rightarrow> u32 \<Rightarrow> ColorBitmapHeader" where
  "wit_cb w h = \<lparr>cb_width = w, cb_height = h, cb_colorDepth = 24, cb_startOffset = 0,
     cb_endOffset = 0\<rparr>"

definition wit_decode :: "BMIHeader \<Rightarrow> ColorBitmapHeader \<Rightarrow> ColorBitmapHeader option \<Rightarrow> Image" where
  "wit_decode hdr c t = \<lparr>img_width = cb_width c, img_height = cb_height c, img_data = [0]\<rparr>"

section \<open>libzmf\_utils.cpp: the byte reader\<close>

text \<open>The code reads through \<open>librevenge::RVNGInputStream\<close>, an abstract class that is not
  part of the repository.  Its four methods are a parameter of every reader below: a record
  of functions over a stream state \<open>'s\<close>.  \<open>long\<close> and \<open>unsigned long\<close> are modelled as
  \<open>int\<close> and \<open>nat\<close>: stream positions lie in \<open>[0, 2^63)\<close>, where the 64-bit arithmetic of
  the readers does not wrap.  \<open>rvng_read\<close> returns the pointer (\<open>None\<close> for a null pointer,
  otherwise the bytes it points to, as many as \<open>numBytesRead\<close> says).\<close>

datatype RVNG_SEEK_TYPE = RVNG_SEEK_CUR | RVNG_SEEK_SET | RVNG_SEEK_END

record 's RVNGInputStream =
  rvng_isEnd :: "'s \<Rightarrow> bool"
  rvng_tell :: "'s \<Rightarrow> int"
  rvng_seek :: "int \<Rightarrow> RVNG_SEEK_TYPE \<Rightarrow> 's \<Rightarrow> int \<times> 's"
  rvng_read :: "nat \<Rightarrow> 's \<Rightarrow> u8 list option \<times> 's"

text \<open>\<open>checkStream\<close> takes the shared pointer, which may be null.  The other readers are
  modelled on a pointer that is not null (their own null checks are those of
  \<open>checkStream\<close>, \<open>seek\<close> and \<open>seekRelative\<close>).\<close>

definition checkStream :: "'s RVNGInputStream \<Rightarrow> 's option \<Rightarrow> error + unit" where
  "checkStream io input =
     (case input of
        None \<Rightarrow> Inl EndOfStreamException
      | Some s \<Rightarrow> if rvng_isEnd io s then Inl EndOfStreamException else Inr ())"

definition readU8 :: "'s RVNGInputStream \<Rightarrow> 's \<Rightarrow> error + u8 \<times> 's" where
  "readU8 io s =
     (case checkStream io (Some s) of
        Inl e \<Rightarrow> Inl e
      | Inr _ \<Rightarrow>
          (case rvng_read io 1 s of
             (Some [b], s') \<Rightarrow> Inr (b, s')
           | _ \<Rightarrow> Inl EndOfStreamException))"

definition readU16 :: "'s RVNGInputStream \<Rightarrow> 's \<Rightarrow> error + u16 \<times> 's" where
  "readU16 io s =
     (case checkStream io (Some s) of
        Inl e \<Rightarrow> Inl e
      | Inr _ \<Rightarrow>
          (case rvng_read io 2 s of
             (Some [p0, p1], s') \<Rightarrow> Inr (ucast p0 OR push_bit 8 (ucast p1), s')
           | _ \<Rightarrow> Inl EndOfStreamException))"

definition readU32 :: "'s RVNGInputStream \<Rightarrow> 's \<Rightarrow> error + u32 \<times> 's" where
  "readU32 io s =
     (case checkStream io (Some s) of
        Inl e \<Rightarrow> Inl e
      | Inr _ \<Rightarrow>
          (case rvng_read io 4 s of
             (Some [p0, p1, p2, p3], s') \<Rightarrow>
               Inr (ucast p0 OR push_bit 8 (ucast p1) OR push_bit 16 (ucast p2)
                      OR push_bit 24 (ucast p3), s')
           | _ \<Rightarrow> Inl EndOfStreamException))"

definition readNBytes :: "'s RVNGInputStream \<Rightarrow> nat \<Rightarrow> 's \<Rightarrow> error + u8 list \<times> 's" where
  "readNBytes io numBytes s =
     (case checkStream io (Some s) of
        Inl e \<Rightarrow> Inl e
      | Inr _ \<Rightarrow>
          (case rvng_read io numBytes s of
             (None, s') \<Rightarrow> if numBytes \<noteq> 0 then Inl EndOfStreamException else Inr ([], s')
           | (Some bs, s') \<Rightarrow>
               if numBytes \<noteq> length bs then Inl EndOfStreamException else Inr (bs, s')))"

text \<open>The conversions between \<open>long\<close> and \<open>unsigned long\<close> (64 bits, two's complement).\<close>

definition to_ulong :: "int \<Rightarrow> nat" where
  "to_ulong x = nat (x mod 2 ^ 64)"

definition to_long :: "nat \<Rightarrow> int" where
  "to_long n = (if n mod 2 ^ 64 < 2 ^ 63 then int (n mod 2 ^ 64) else int (n mod 2 ^ 64) - 2 ^ 64)"

definition seek :: "'s RVNGInputStream \<Rightarrow> nat \<Rightarrow> 's \<Rightarrow> error + 's" where
  "seek io pos s =
     (case rvng_seek io (to_long pos) RVNG_SEEK_SET s of
        (r, s') \<Rightarrow> if 0 \<noteq> r then Inl SeekFailedException else Inr s')"

definition seekRelative :: "'s RVNGInputStream \<Rightarrow> int \<Rightarrow> 's \<Rightarrow> error + 's" where
  "seekRelative io pos s =
     (case rvng_seek io pos RVNG_SEEK_CUR s of
        (r, s') \<Rightarrow> if 0 \<noteq> r then Inl SeekFailedException else Inr s')"

definition skip :: "'s RVNGInputStream \<Rightarrow> nat \<Rightarrow> 's \<Rightarrow> error + 's" where
  "skip io numBytes s =
     (case checkStream io (Some s) of
        Inl e \<Rightarrow> Inl e
      | Inr _ \<Rightarrow> seekRelative io (to_long numBytes) s)"

text \<open>The loop \<open>while (!input->isEnd()) readU8(input);\<close> of \<open>getLength\<close>.  Nothing bounds
  it for an arbitrary stream, so not returning is the value \<open>None\<close>.\<close>

partial_function (option) readToEnd :: "'s RVNGInputStream \<Rightarrow> 's \<Rightarrow> (error + 's) option" where
  "readToEnd io s =
     (if rvng_isEnd io s then Some (Inr s)
      else (case readU8 io s of
              Inl e \<Rightarrow> Some (Inl e)
            | Inr (b, s') \<Rightarrow> readToEnd io s'))"

text \<open>The first half of \<open>getLength\<close>: the stream moved to its end, by \<open>seek(0, RVNG_SEEK_END)\<close>
  or, when that returns non-zero, by reading up to the end.\<close>

definition seekToEnd :: "'s RVNGInputStream \<Rightarrow> 's \<Rightarrow> (error + 's) option" where
  "seekToEnd io s =
     (case rvng_seek io 0 RVNG_SEEK_END s of
        (r, s1) \<Rightarrow> if r \<noteq> 0 then readToEnd io s1 else Some (Inr s1))"

definition getLength :: "'s RVNGInputStream \<Rightarrow> 's option \<Rightarrow> (error + nat \<times> 's) option" where
  "getLength io input =
     (case checkStream io input of
        Inl e \<Rightarrow> Some (Inl e)
      | Inr _ \<Rightarrow>
          (case input of
             None \<Rightarrow> Some (Inl EndOfStreamException)
           | Some s \<Rightarrow>
               (let begin = rvng_tell io s in
                case seekToEnd io s of
                  None \<Rightarrow> None
                | Some (Inl e) \<Rightarrow> Some (Inl e)
                | Some (Inr s2) \<Rightarrow>
                    (let end = rvng_tell io s2 in
                     if end < begin then Some (Inl SeekFailedException)
                     else (case seek io (to_ulong begin) s2 of
                             Inl e \<Rightarrow> Some (Inl e)
                           | Inr s3 \<Rightarrow> Some (Inr (to_ulong (end - begin), s3)))))))"

subsection \<open>An in-memory stream\<close>

text \<open>Modelled from the spec: the input stream contract of section 6 (read(n) returns bytes
  and may short-read to signal the end, seek(pos, whence) returns success or failure, tell()
  returns the position, isEnd() says whether the position is at the end).  The stream is a
  buffer and an offset into it; a seek outside the buffer is clamped and reported as a
  failure.  \<open>seekEnd\<close> says whether the stream supports \<open>RVNG_SEEK_END\<close>.\<close>

record RVNGStringStream =
  buffer :: "u8 list"
  offset :: int
  seekEnd :: bool

definition mem_isEnd :: "RVNGStringStream \<Rightarrow> bool" where
  "mem_isEnd s = (offset s \<ge> int (length (buffer s)))"

definition mem_seek :: "int \<Rightarrow> RVNG_SEEK_TYPE \<Rightarrow> RVNGStringStream \<Rightarrow> int \<times> RVNGStringStream" where
  "mem_seek pos whence s =
     (if whence = RVNG_SEEK_END \<and> \<not> seekEnd s then (-1, s)
      else
        let new = (case whence of
                     RVNG_SEEK_CUR \<Rightarrow> offset s + pos
                   | RVNG_SEEK_SET \<Rightarrow> pos
                   | RVNG_SEEK_END \<Rightarrow> pos + int (length (buffer s)))
        in if new < 0 then (-1, s\<lparr>offset := 0\<rparr>)
           else if new > int (length (buffer s)) then (1, s\<lparr>offset := int (length (buffer s))\<rparr>)
           else (0, s\<lparr>offset := new\<rparr>))"

definition mem_read :: "nat \<Rightarrow> RVNGStringStream \<Rightarrow> u8 list option \<times> RVNGStringStream" where
  "mem_read numBytes s =
     (let avail = length (buffer s) - nat (offset s);
          n = min numBytes avail
      in if n = 0 then (None, s)
         else (Some (take n (drop (nat (offset s)) (buffer s))), s\<lparr>offset := offset s + int n\<rparr>))"

definition mem_io :: "RVNGStringStream RVNGInputStream" where
  "mem_io = \<lparr>rvng_isEnd = mem_isEnd, rvng_tell = offset, rvng_seek = mem_seek,
     rvng_read = mem_read\<rparr>"

definition stream_of :: "u8 list \<Rightarrow> RVNGStringStream" where
  "stream_of bs = \<lparr>buffer = bs, offset = 0, seekEnd = True\<rparr>"

text \<open>A stream whose \<open>tell\<close> goes backwards after a seek to the end (it reports 0 there), for
  the branch \<open>end < begin\<close> of \<open>getLength\<close>.\<close>

definition odd_io :: "RVNGStringStream RVNGInputStream" where
  "odd_io = mem_io\<lparr>rvng_tell := (\<lambda>s. if mem_isEnd s then 0 else offset s)\<rparr>"

text \<open>Concrete streams for the worked examples.\<close>

definition wit_mid :: RVNGStringStream where
  "wit_mid = \<lparr>buffer = [1, 2, 3, 4, 5], offset = 2, seekEnd = False\<rparr>"

definition wit_at_end :: RVNGStringStream where
  "wit_at_end = \<lparr>buffer = [1, 2, 3], offset = 3, seekEnd = True\<rparr>"

definition wit_second :: RVNGStringStream where
  "wit_second = \<lparr>buffer = [1, 2, 3], offset = 1, seekEnd = True\<rparr>"

definition wit_before_start :: RVNGStringStream where
  "wit_before_start = \<lparr>buffer = [1, 2, 3], offset = - 1, seekEnd = True\<rparr>"

section \<open>BMIParser.cpp: palette and pixel assembly\<close>

text \<open>\<open>BMIParser::readColorPalette\<close>: \<open>1 << colorDepth\<close> entries, each read as blue, green,
  red and one skipped byte.  \<open>readColors\<close> is the range-for loop over the vector.\<close>

fun readColors :: "'s RVNGInputStream \<Rightarrow> nat \<Rightarrow> 's \<Rightarrow> error + Color list \<times> 's" where
  "readColors io 0 s = Inr ([], s)"
| "readColors io (Suc n) s =
     (case readU8 io s of Inl e \<Rightarrow> Inl e | Inr (b, s1) \<Rightarrow>
      case readU8 io s1 of Inl e \<Rightarrow> Inl e | Inr (g, s2) \<Rightarrow>
      case readU8 io s2 of Inl e \<Rightarrow> Inl e | Inr (r, s3) \<Rightarrow>
      case skip io 1 s3 of Inl e \<Rightarrow> Inl e | Inr s4 \<Rightarrow>
      case readColors io n s4 of Inl e \<Rightarrow> Inl e | Inr (cs, s5) \<Rightarrow>
        Inr (\<lparr>red = r, green = g, blue = b\<rparr> # cs, s5))"

definition readColorPalette :: "'s RVNGInputStream \<Rightarrow> u32 \<Rightarrow> 's \<Rightarrow> error + Color list \<times> 's" where
  "readColorPalette io colorDepth s =
     (let colorCount = (push_bit (unat colorDepth) 1 :: u32)
      in readColors io (unat colorCount) s)"

text \<open>From \<open>BMIParser::readColorBitmap\<close>:
  \<open>shift = 8 - std::min<uint16_t>(hdr.m_colorDepth, 8)\<close> and
  \<open>mask = (0xff >> shift) << shift\<close>, both \<open>unsigned\<close>.\<close>

definition pixel_shift :: "u32 \<Rightarrow> u32" where
  "pixel_shift colorDepth = 8 - ucast (min (ucast colorDepth :: u16) 8)"

definition pixel_mask :: "u32 \<Rightarrow> u32" where
  "pixel_mask colorDepth =
     push_bit (unat (pixel_shift colorDepth)) (drop_bit (unat (pixel_shift colorDepth)) 0xff)"

text \<open>\<open>uint8_t index = (indexes & mask) >> shift\<close>: the byte is promoted, masked and shifted
  as \<open>unsigned\<close>, and the result is cut to eight bits.\<close>

definition palette_index :: "u32 \<Rightarrow> u8 \<Rightarrow> u8" where
  "palette_index colorDepth indexes =
     ucast (drop_bit (unat (pixel_shift colorDepth)) ((ucast indexes :: u32) AND pixel_mask colorDepth))"

text \<open>The inner loop of \<open>readColorBitmap\<close> for a palette bitmap,
  \<open>for (j = 0; j < 8 / depth; j++)\<close>, on one data byte: the first argument after the width is
  the number of iterations still to run.  It returns the colours pushed and the column
  reached; \<open>None\<close> is a read of \<open>colorPalette\<close> outside the vector.\<close>

fun unpack_indexes ::
  "Color list \<Rightarrow> u32 \<Rightarrow> u32 \<Rightarrow> nat \<Rightarrow> u8 \<Rightarrow> u32 \<Rightarrow> (Color list \<times> u32) option" where
  "unpack_indexes colorPalette colorDepth width 0 indexes col = Some ([], col)"
| "unpack_indexes colorPalette colorDepth width (Suc n) indexes col =
     (let index = palette_index colorDepth indexes in
      if unat index \<ge> length colorPalette then None
      else
        let c = colorPalette ! unat index;
            indexes' = push_bit (unat colorDepth) indexes;
            col' = col + 1
        in if col' = width then Some ([c], col')
           else (case unpack_indexes colorPalette colorDepth width n indexes' col' of
                   None \<Rightarrow> None
                 | Some (cs, col'') \<Rightarrow> Some (c # cs, col'')))"

definition unpack_byte :: "Color list \<Rightarrow> u32 \<Rightarrow> u32 \<Rightarrow> u8 \<Rightarrow> u32 \<Rightarrow> (Color list \<times> u32) option" where
  "unpack_byte colorPalette colorDepth width indexes col =
     unpack_indexes colorPalette colorDepth width (unat ((8 :: u32) div colorDepth)) indexes col"

text \<open>A two-colour palette (black, white) and its eight bytes in the file, for the worked
  example.\<close>

definition wit_palette :: "Color list" where
  "wit_palette = [\<lparr>red = 0, green = 0, blue = 0\<rparr>, \<lparr>red = 255, green = 255, blue = 255\<rparr>]"

definition wit_palette_bytes :: "u8 list" where
  "wit_palette_bytes = [0, 0, 0, 0, 255, 255, 255, 0]"

section \<open>ZMF4Parser::readPen: the dash pattern\<close>

text \<open>\<open>bytesToBitset<numBytes>\<close> (libzmf\_utils.h): bit \<open>8 * i + j\<close> of the set is bit \<open>j\<close> of
  byte \<open>i\<close>.  A \<open>std::bitset\<close> is modelled as the list of its bits, position 0 first.
  \<open>byte_bits\<close> is the inner loop (\<open>b[offset++] = cur & 1; cur >>= 1\<close>), its first argument
  the number of iterations left.\<close>

fun byte_bits :: "nat \<Rightarrow> u8 \<Rightarrow> bool list" where
  "byte_bits 0 cur = []"
| "byte_bits (Suc j) cur = (cur AND 1 \<noteq> 0) # byte_bits j (drop_bit 1 cur)"

definition bytesToBitset :: "nat \<Rightarrow> u8 list \<Rightarrow> bool list" where
  "bytesToBitset numBytes data = concat (map (byte_bits 8) (take numBytes data))"

definition bitset_all :: "bool list \<Rightarrow> bool" where
  "bitset_all b = list_all (\<lambda>x. x) b"

text \<open>The loop \<open>for (i = 1; i < 24; i++)\<close> of \<open>readPen\<close>, over the bits at positions 1 to 23.
  It carries \<open>curLength\<close>, \<open>prevVal\<close> and the pattern built so far, and returns the pattern
  and the final \<open>curLength\<close>.  The pattern is a vector of \<open>double\<close> in the source; it only
  ever holds these small integers.\<close>

fun dash_loop :: "bool list \<Rightarrow> int \<Rightarrow> bool \<Rightarrow> int list \<Rightarrow> int list \<times> int" where
  "dash_loop [] curLength prevVal dashPattern = (dashPattern, curLength)"
| "dash_loop (b # bs) curLength prevVal dashPattern =
     (if b \<noteq> prevVal then dash_loop bs (0 + 1) b (dashPattern @ [curLength])
      else dash_loop bs (curLength + 1) b dashPattern)"

record PenDash =
  dashPattern :: "int list"
  dashDistance :: int

text \<open>Lines 833 to 866 of \<open>readPen\<close>, from the six bytes of dash bits and the 16-bit dash
  length read from the stream.  A default-constructed pen has an empty pattern and
  distance 0.  \<open>dashLength / 1024\<close> is a division of non-negative \<open>int\<close>s.\<close>

definition decodeDash :: "u8 list \<Rightarrow> u16 \<Rightarrow> PenDash" where
  "decodeDash bytes dashLength =
     (let dashBits = bytesToBitset 6 bytes in
      if \<not> bitset_all dashBits then
        let pat = fst (dash_loop (take 23 (drop 1 dashBits)) 1 True []);
            sum = sum_list pat;
            dist = (int (unat dashLength) div 1024) - sum
        in \<lparr>dashPattern = pat, dashDistance = (if dist < 1 then 1 else dist)\<rparr>
      else \<lparr>dashPattern = [], dashDistance = 0\<rparr>)"

definition readPenDash :: "'s RVNGInputStream \<Rightarrow> 's \<Rightarrow> error + PenDash \<times> 's" where
  "readPenDash io s =
     (case readNBytes io 6 s of Inl e \<Rightarrow> Inl e | Inr (bytes, s1) \<Rightarrow>
      case readU16 io s1 of Inl e \<Rightarrow> Inl e | Inr (dashLength, s2) \<Rightarrow>
        Inr (decodeDash bytes dashLength, s2))"

text \<open>The dash fields of a pen for the worked example: bits 0 to 3 set, dash length 2048.\<close>

definition wit_dash_bytes :: "u8 list" where
  "wit_dash_bytes = [0x0F, 0, 0, 0, 0, 0]"

definition wit_dash_stream :: RVNGStringStream where
  "wit_dash_stream = stream_of (wit_dash_bytes @ [0x00, 0x08, 0xFF])"

section \<open>ZMFTypes.cpp: points and bounding boxes\<close>

text \<open>\<open>double\<close> is modelled as \<open>real\<close> (in \<open>Point\<close> and below): the geometry is exact
  where the code rounds.  Which inputs make the constructor throw does not depend on the
  arithmetic.\<close>

definition Point_rotate :: "Point \<Rightarrow> real \<Rightarrow> Point \<Rightarrow> Point" where
  "Point_rotate p rotation center =
     \<lparr>p_x = (p_x p - p_x center) * cos rotation - (p_y p - p_y center) * sin rotation + p_x center,
      p_y = (p_y p - p_y center) * cos rotation + (p_x p - p_x center) * sin rotation + p_y center\<rparr>"

definition Point_distance :: "Point \<Rightarrow> Point \<Rightarrow> real" where
  "Point_distance p p2 = sqrt ((p_x p2 - p_x p)\<^sup>2 + (p_y p2 - p_y p)\<^sup>2)"

text \<open>\<open>std::atan2\<close>, with \<open>atan2(0, 0) = 0\<close>.\<close>

definition atan2 :: "real \<Rightarrow> real \<Rightarrow> real" where
  "atan2 b a =
     (if a > 0 then arctan (b / a)
      else if a < 0 \<and> b \<ge> 0 then arctan (b / a) + pi
      else if a < 0 \<and> b < 0 then arctan (b / a) - pi
      else if b > 0 then pi / 2
      else if b < 0 then - pi / 2
      else 0)"

definition ZMF_EPSILON :: real where
  "ZMF_EPSILON = 1 / 1000000"

definition ZMF_ALMOST_ZERO :: "real \<Rightarrow> bool" where
  "ZMF_ALMOST_ZERO m = (\<bar>m\<bar> \<le> ZMF_EPSILON)"

record BoundingBox =
  m_points :: "Point list"
  m_bbox_width :: real
  m_bbox_height :: real
  m_center :: Point
  m_rotation :: real
  m_p1Quadrant :: int
  m_p2Quadrant :: int
  m_mirrorHorizontal :: bool
  m_mirrorVertical :: bool

definition quadrant :: "Point \<Rightarrow> Point \<Rightarrow> int" where
  "quadrant center p =
     (if p_x p > p_x center then (if p_y p < p_y center then 1 else 4)
      else (if p_y p < p_y center then 2 else 3))"

text \<open>The constructor \<open>BoundingBox::BoundingBox(const std::vector<Point> &)\<close>.  Its only
  \<open>throw\<close> is the one on the number of points.\<close>

definition BoundingBox_ctor :: "Point list \<Rightarrow> error + BoundingBox" where
  "BoundingBox_ctor pts =
     (if length pts \<noteq> 4 then Inl GenericException
      else
        let p0 = pts ! 0; p1 = pts ! 1; p2 = pts ! 2; p3 = pts ! 3;
            center = \<lparr>p_x = (p_x p0 + p_x p2) / 2, p_y = (p_y p0 + p_y p2) / 2\<rparr>;
            rot0 = atan2 (p_y p1 - p_y p0) (p_x p1 - p_x p0);
            rot1 = (if rot0 < 0 then rot0 + 2 * pi else rot0);
            originalPoints =
              (if ZMF_ALMOST_ZERO rot1 then pts
               else map (\<lambda>p. Point_rotate p (- rot1) center) pts);
            dist1 = Point_distance p0 p1;
            dist2 = Point_distance p0 p3;
            wide = \<bar>p_x (originalPoints ! 0) - p_x (originalPoints ! 1)\<bar>
                     > \<bar>p_x (originalPoints ! 0) - p_x (originalPoints ! 3)\<bar>;
            q1 = quadrant center (originalPoints ! 0);
            q2 = quadrant center (originalPoints ! 1);
            rot2 = (if q1 = 1 \<or> q1 = 4 then rot1 - pi else rot1);
            rot3 = (if rot2 < 0 then rot2 + 2 * pi else rot2)
        in Inr \<lparr>m_points = pts,
                 m_bbox_width = (if wide then dist1 else dist2),
                 m_bbox_height = (if wide then dist2 else dist1),
                 m_center = center,
                 m_rotation = rot3,
                 m_p1Quadrant = q1,
                 m_p2Quadrant = q2,
                 m_mirrorHorizontal = (q1 = 1 \<or> q1 = 4),
                 m_mirrorVertical = (q1 = 3 \<or> q1 = 4)\<rparr>)"

text \<open>\<open>ZMF4Parser::readBoundingBox\<close> always passes the four points it has read.  The points
  of the first box of the unit test \<open>testBBoxQuadrants\<close>, and a point repeated four
  times.\<close>

definition test_box :: "Point list" where
  "test_box = [\<lparr>p_x = 10, p_y = 10\<rparr>, \<lparr>p_x = 12, p_y = 10\<rparr>, \<lparr>p_x = 12, p_y = 12\<rparr>, \<lparr>p_x = 10, p_y = 12\<rparr>]"

definition same_point_box :: "Point list" where
  "same_point_box = [\<lparr>p_x = 1, p_y = 1\<rparr>, \<lparr>p_x = 1, p_y = 1\<rparr>, \<lparr>p_x = 1, p_y = 1\<rparr>, \<lparr>p_x = 1, p_y = 1\<rparr>]"

section \<open>ZMF4Parser.cpp: object headers and reference lists\<close>

definition NO_ID :: u32 where
  "NO_ID = 0xffffffff"

datatype ObjectType =
    UNKNOWN | FILL | TRANSPARENCY | PEN | SHADOW | ARROW | FONT | PARAGRAPH | TEXT | BITMAP
  | PAGE_START | GUIDELINES | PAGE_END | LAYER_START | LAYER_END | DOCUMENT_SETTINGS
  | COLOR_PALETTE | RECTANGLE | ELLIPSE | POLYGON | CURVE | IMAGE | TEXT_FRAME | TABLE
  | GROUP_START | GROUP_END

definition parseObjectType :: "u8 \<Rightarrow> ObjectType" where
  "parseObjectType t =
     (if t = 0xa then FILL
      else if t = 0xb then TRANSPARENCY
      else if t = 0xc then PEN
      else if t = 0xd then SHADOW
      else if t = 0xf then ARROW
      else if t = 0x10 then FONT
      else if t = 0x11 then PARAGRAPH
      else if t = 0x12 then TEXT
      else if t = 0xe then BITMAP
      else if t = 0x21 then PAGE_START
      else if t = 0x22 then GUIDELINES
      else if t = 0x23 then PAGE_END
      else if t = 0x24 then LAYER_START
      else if t = 0x25 then LAYER_END
      else if t = 0x27 then DOCUMENT_SETTINGS
      else if t = 0x28 then COLOR_PALETTE
      else if t = 0x32 then RECTANGLE
      else if t = 0x33 then ELLIPSE
      else if t = 0x34 then POLYGON
      else if t = 0x36 then CURVE
      else if t = 0x37 then IMAGE
      else if t = 0x3a then TEXT_FRAME
      else if t = 0x3b then TABLE
      else if t = 0x41 then GROUP_START
      else if t = 0x42 then GROUP_END
      else UNKNOWN)"

text \<open>\<open>struct ObjectHeader\<close>.  The fields \<open>type\<close>, \<open>size\<close> and \<open>id\<close> carry the prefix
  \<open>oh_\<close>; \<open>id\<close> is a \<open>boost::optional<uint32_t>\<close>.\<close>

record ObjectHeader =
  oh_type :: ObjectType
  oh_size :: u32
  nextObjectOffset :: u32
  oh_id :: "u32 option"
  refObjCount :: u32
  refListStartOffset :: u32

definition ObjectHeader_default :: ObjectHeader where
  "ObjectHeader_default =
     \<lparr>oh_type = UNKNOWN, oh_size = 0, nextObjectOffset = 0, oh_id = None, refObjCount = 0,
      refListStartOffset = 0\<rparr>"

text \<open>\<open>readObjectHeader\<close>; the second argument is the member \<open>m_inputLength\<close>.  All offsets
  are \<open>uint32_t\<close>, so the position is cut to 32 bits and the arithmetic wraps.\<close>

definition readObjectHeader ::
  "'s RVNGInputStream \<Rightarrow> u32 \<Rightarrow> 's \<Rightarrow> error + ObjectHeader \<times> 's" where
  "readObjectHeader io inputLength s =
     (let startOffset = (word_of_int (rvng_tell io s) :: u32) in
      case readU32 io s of Inl e \<Rightarrow> Inl e | Inr (sz, s1) \<Rightarrow>
      case readU8 io s1 of Inl e \<Rightarrow> Inl e | Inr (t, s2) \<Rightarrow>
      case skip io 7 s2 of Inl e \<Rightarrow> Inl e | Inr s3 \<Rightarrow>
      case readU32 io s3 of Inl e \<Rightarrow> Inl e | Inr (cnt, s4) \<Rightarrow>
      case readU32 io s4 of Inl e \<Rightarrow> Inl e | Inr (rls, s5) \<Rightarrow>
        if sz = 0 \<or> sz > inputLength - startOffset \<or> rls \<ge> sz \<or> cnt > (sz - rls) div 8
        then Inl GenericException
        else
          (case skip io 4 s5 of Inl e \<Rightarrow> Inl e | Inr s6 \<Rightarrow>
           case readU32 io s6 of Inl e \<Rightarrow> Inl e | Inr (ident, s7) \<Rightarrow>
             Inr (\<lparr>oh_type = parseObjectType t,
                   oh_size = sz,
                   nextObjectOffset = startOffset + sz,
                   oh_id = (if ident \<noteq> NO_ID then Some ident else None),
                   refObjCount = cnt,
                   refListStartOffset = (if rls > 0 then rls + startOffset else rls)\<rparr>, s7)))"

record ObjectRef =
  ref_id :: u32
  ref_tag :: u32

text \<open>Division of \<open>long\<close> values, which truncates towards zero.\<close>

definition long_div :: "int \<Rightarrow> int \<Rightarrow> int" where
  "long_div a b = sgn a * sgn b * (\<bar>a\<bar> div \<bar>b\<bar>)"

fun readU32s :: "'s RVNGInputStream \<Rightarrow> nat \<Rightarrow> 's \<Rightarrow> error + u32 list \<times> 's" where
  "readU32s io 0 s = Inr ([], s)"
| "readU32s io (Suc n) s =
     (case readU32 io s of Inl e \<Rightarrow> Inl e | Inr (w, s1) \<Rightarrow>
      case readU32s io n s1 of Inl e \<Rightarrow> Inl e | Inr (ws, s2) \<Rightarrow> Inr (w # ws, s2))"

text \<open>\<open>readObjectRefs\<close>, on the current object header.  Its first five lines limit the
  count to \<open>maxRefObjCount = long(nextObjectOffset) - tell() / 8\<close> (as the source writes it),
  not below 0: that is \<open>limitedRefObjCount\<close>, of the header and the position.  The list is
  then sought at \<open>nextObjectOffset - 8 * refObjCount\<close>, computed in 32 bits.\<close>

definition limitedRefObjCount :: "ObjectHeader \<Rightarrow> int \<Rightarrow> u32" where
  "limitedRefObjCount hdr pos =
     (let maxRefObjCount0 = int (unat (nextObjectOffset hdr)) - long_div pos 8;
          maxRefObjCount = (if maxRefObjCount0 < 0 then 0 else maxRefObjCount0)
      in if int (unat (refObjCount hdr)) > maxRefObjCount
         then (word_of_int maxRefObjCount :: u32) else refObjCount hdr)"

definition readObjectRefs ::
  "'s RVNGInputStream \<Rightarrow> ObjectHeader \<Rightarrow> 's \<Rightarrow> error + ObjectRef list \<times> 's" where
  "readObjectRefs io hdr s =
     (let cnt = limitedRefObjCount hdr (rvng_tell io s)
      in if cnt > 0 then
           (case seek io (unat (nextObjectOffset hdr - 8 * cnt)) s of Inl e \<Rightarrow> Inl e | Inr s1 \<Rightarrow>
            case readU32s io (unat cnt) s1 of Inl e \<Rightarrow> Inl e | Inr (ids, s2) \<Rightarrow>
            case readU32s io (unat cnt) s2 of Inl e \<Rightarrow> Inl e | Inr (tags, s3) \<Rightarrow>
              Inr (filter (\<lambda>r. ref_id r \<noteq> NO_ID)
                     (map (\<lambda>(i, t). \<lparr>ref_id = i, ref_tag = t\<rparr>) (zip ids tags)), s3))
         else Inr ([], s))"

text \<open>The reference list as the specification words it: at the recorded absolute offset when
  \<open>refListStartOffset\<close> is greater than 0, otherwise at \<open>nextObjectOffset - 8 * refCount\<close>;
  all ids, then all tags; entries with the id 0xffffffff dropped.\<close>

definition refs_position_spec :: "ObjectHeader \<Rightarrow> u32" where
  "refs_position_spec hdr =
     (if refListStartOffset hdr > 0 then refListStartOffset hdr
      else nextObjectOffset hdr - 8 * refObjCount hdr)"

definition readObjectRefs_spec ::
  "'s RVNGInputStream \<Rightarrow> ObjectHeader \<Rightarrow> 's \<Rightarrow> error + ObjectRef list \<times> 's" where
  "readObjectRefs_spec io hdr s =
     (if refObjCount hdr > 0 then
        (case seek io (unat (refs_position_spec hdr)) s of Inl e \<Rightarrow> Inl e | Inr s1 \<Rightarrow>
         case readU32s io (unat (refObjCount hdr)) s1 of Inl e \<Rightarrow> Inl e | Inr (ids, s2) \<Rightarrow>
         case readU32s io (unat (refObjCount hdr)) s2 of Inl e \<Rightarrow> Inl e | Inr (tags, s3) \<Rightarrow>
           Inr (filter (\<lambda>r. ref_id r \<noteq> NO_ID)
                  (map (\<lambda>(i, t). \<lparr>ref_id = i, ref_tag = t\<rparr>) (zip ids tags)), s3))
      else Inr ([], s))"

text \<open>The little-endian 32-bit word at an index of a buffer.\<close>

definition le32_at :: "u8 list \<Rightarrow> nat \<Rightarrow> u32" where
  "le32_at bs k =
     ucast (bs ! k) OR push_bit 8 (ucast (bs ! (k + 1))) OR push_bit 16 (ucast (bs ! (k + 2)))
       OR push_bit 24 (ucast (bs ! (k + 3)))"

text \<open>An object of 44 bytes for the worked example: a rectangle header with one reference
  and a recorded reference-list offset of 28, then two (id, tag) pairs, at 28 and at 36.\<close>

definition wit_object :: "u8 list" where
  "wit_object =
     [44, 0, 0, 0] @ [0x32] @ replicate 7 0 @ [1, 0, 0, 0] @ [28, 0, 0, 0] @ replicate 4 0
     @ [5, 0, 0, 0]
     @ [0x11, 0x11, 0x11, 0x11] @ [1, 0, 0, 0]
     @ [0x22, 0x22, 0x22, 0x22] @ [2, 0, 0, 0]"

definition wit_object_header :: ObjectHeader where
  "wit_object_header =
     \<lparr>oh_type = RECTANGLE, oh_size = 44, nextObjectOffset = 44, oh_id = Some 5,
      refObjCount = 1, refListStartOffset = 28\<rparr>"

text \<open>An object of 52 bytes with three references: the ids 0x11111111, 0xffffffff and
  0x33333333 at 28, then the tags 1, 2 and 3 at 40.\<close>

definition wit_refs_object :: "u8 list" where
  "wit_refs_object =
     [52, 0, 0, 0] @ [0x36] @ replicate 7 0 @ [3, 0, 0, 0] @ [28, 0, 0, 0] @ replicate 4 0
     @ [7, 0, 0, 0]
     @ [0x11, 0x11, 0x11, 0x11] @ [0xFF, 0xFF, 0xFF, 0xFF] @ [0x33, 0x33, 0x33, 0x33]
     @ [1, 0, 0, 0] @ [2, 0, 0, 0] @ [3, 0, 0, 0]"

definition wit_refs_header :: ObjectHeader where
  "wit_refs_header =
     \<lparr>oh_type = CURVE, oh_size = 52, nextObjectOffset = 52, oh_id = Some 7,
      refObjCount = 3, refListStartOffset = 28\<rparr>"

section \<open>ZMF4Parser.cpp: points, bounding boxes and curves\<close>














definition end_marker :: "u8 list" where
  "end_marker = [0x64, 0, 0, 0]"


text \<open>The body of a rectangle object up to its bounding box: eight skipped bytes and the
  corners (1, 1), (2, 1), (2, 2), (1, 2) in inches, written in micrometres.\<close>

definition wit_rect_bytes :: "u8 list" where
  "wit_rect_bytes =
     replicate 8 0
     @ [0x38, 0x63, 0, 0, 0x38, 0x63, 0, 0] @ [0x70, 0xC6, 0, 0, 0x38, 0x63, 0, 0]
     @ [0x70, 0xC6, 0, 0, 0x70, 0xC6, 0, 0] @ [0x38, 0x63, 0, 0, 0x70, 0xC6, 0, 0]"



text \<open>The records of a section list as a file may hold them: four bytes whose 32-bit value is
  neither 2 nor 0x64, read as a LINE whatever the value, or the value 2 and eight more
  bytes, whatever they are, read as a BEZIER\_CURVE.\<close>

datatype SectionRecord = LineRecord u8 u8 u8 u8 | BezierRecord "u8 list"

fun record_bytes :: "SectionRecord \<Rightarrow> u8 list" where
  "record_bytes (LineRecord b0 b1 b2 b3) = [b0, b1, b2, b3]"
| "record_bytes (BezierRecord pad) = [2, 0, 0, 0] @ pad"



definition records_bytes :: "SectionRecord list \<Rightarrow> u8 list" where
  "records_bytes rs = concat (map record_bytes rs)"

text \<open>A polygon object for the worked example: its header (121 bytes, no id, no
  references), the bounding box of the rectangle example, five peaks, a peak of two points,
  and the section records LINE, BEZIER\_CURVE.\<close>

definition wit_polygon_object :: "u8 list" where
  "wit_polygon_object =
     [121, 0, 0, 0] @ [0x34] @ replicate 7 0 @ [0, 0, 0, 0] @ [0, 0, 0, 0] @ replicate 4 0
     @ [0xFF, 0xFF, 0xFF, 0xFF]
     @ wit_rect_bytes @ [5, 0, 0, 0] @ [2, 0, 0, 0] @ replicate 8 0
     @ [0x38, 0x63, 0, 0, 0x38, 0x63, 0, 0] @ [0x70, 0xC6, 0, 0, 0x38, 0x63, 0, 0]
     @ records_bytes [LineRecord 1 0 0 0, BezierRecord (replicate 8 0)] @ end_marker @ [0]"

definition wit_polygon_header :: ObjectHeader where
  "wit_polygon_header =
     \<lparr>oh_type = POLYGON, oh_size = 121, nextObjectOffset = 121, oh_id = None,
      refObjCount = 0, refListStartOffset = 0\<rparr>"

section \<open>Bitmap reconciliation: the majority rule\<close>

lemma reconcileValue_ok_iff:
  "fst (reconcileValue v1 v2 v3) \<longleftrightarrow> (v1 = v2 \<or> v1 = v3 \<or> v2 = v3)"
  by (simp add: reconcileValue_def)

lemma reconcileValue_majority:
  assumes "reconcileValue v1 v2 v3 = (True, a, b, c)"
  shows "a = b \<and> b = c \<and> ((a = v1 \<and> (v1 = v2 \<or> v1 = v3)) \<or> (a = v2 \<and> v2 = v3))"
  using assms by (auto simp: reconcileValue_def split: if_splits)

lemma reconcileValue_fail:
  assumes "reconcileValue v1 v2 v3 = (False, a, b, c)"
  shows "a = v1 \<and> b = v2 \<and> c = v3 \<and> v1 \<noteq> v2 \<and> v1 \<noteq> v3 \<and> v2 \<noteq> v3"
  using assms by (auto simp: reconcileValue_def split: if_splits)

lemma reconcileDimensions_ok_iff:
  "fst (reconcileDimensions hdr ch th) \<longleftrightarrow>
     (m_width hdr = cb_width ch \<or> m_width hdr = cb_width th \<or> cb_width ch = cb_width th) \<and>
     (m_height hdr = cb_height ch \<or> m_height hdr = cb_height th \<or> cb_height ch = cb_height th)"
  by (simp add: reconcileDimensions_def reconcileWidth_def reconcileHeight_def
      reconcileValue_def Let_def)

lemma readImage_headers_discards:
  assumes "\<not> fst (reconcileDimensions hdr ch th)"
  shows "readImage_headers decode hdr (Some ch) (Some th) = Image_empty"
proof (cases "reconcileDimensions hdr ch th")
  case (fields ok hdr' ch' th')
  with assms have "\<not> ok" by simp
  with fields show ?thesis by (simp add: readImage_headers_def)
qed

lemma majority_held:
  "two_agree v1 v2 v3 \<Longrightarrow>
     (v1 = majority v1 v2 v3 \<and> (v2 = majority v1 v2 v3 \<or> v3 = majority v1 v2 v3)) \<or>
     (v2 = majority v1 v2 v3 \<and> v3 = majority v1 v2 v3)"
  by (auto simp: two_agree_def majority_def)

lemma reconcileValue_result:
  "reconcileValue v1 v2 v3 =
     (if two_agree v1 v2 v3
      then (True, majority v1 v2 v3, majority v1 v2 v3, majority v1 v2 v3)
      else (False, v1, v2, v3))"
  by (auto simp: reconcileValue_def two_agree_def majority_def)

lemma reconcileWidth_result:
  "reconcileWidth hdr cw tw =
     (if two_agree (m_width hdr) cw tw
      then (True, hdr\<lparr>m_width := majority (m_width hdr) cw tw\<rparr>,
            majority (m_width hdr) cw tw, majority (m_width hdr) cw tw)
      else (False, hdr, cw, tw))"
  by (simp add: reconcileWidth_def reconcileValue_result)

lemma reconcileHeight_result:
  "reconcileHeight hdr chh thh =
     (if two_agree (m_height hdr) chh thh
      then (True, hdr\<lparr>m_height := majority (m_height hdr) chh thh\<rparr>,
            majority (m_height hdr) chh thh, majority (m_height hdr) chh thh)
      else (False, hdr, chh, thh))"
  by (simp add: reconcileHeight_def reconcileValue_result)

lemma reconcileDimensions_result:
  "reconcileDimensions hdr ch th =
     (let mw = majority (m_width hdr) (cb_width ch) (cb_width th);
          mh = majority (m_height hdr) (cb_height ch) (cb_height th)
      in if \<not> two_agree (m_width hdr) (cb_width ch) (cb_width th) then (False, hdr, ch, th)
         else if \<not> two_agree (m_height hdr) (cb_height ch) (cb_height th)
         then (False, hdr\<lparr>m_width := mw\<rparr>, ch\<lparr>cb_width := mw\<rparr>, th\<lparr>cb_width := mw\<rparr>)
         else (True, hdr\<lparr>m_width := mw, m_height := mh\<rparr>,
               ch\<lparr>cb_width := mw, cb_height := mh\<rparr>, th\<lparr>cb_width := mw, cb_height := mh\<rparr>))"
  by (simp add: reconcileDimensions_def reconcileWidth_result reconcileHeight_result Let_def)

lemma readImage_headers_reconciled:
  assumes "reconcileDimensions hdr ch th = (True, hdr', ch', th')"
  shows "readImage_headers decode hdr (Some ch) (Some th) = decode hdr' ch' (Some th')"
  using assms by (simp add: readImage_headers_def)

text \<open>C3.  Reconciliation of a triple (header value, colour-bitmap value, transparency-bitmap
  value) succeeds exactly when at least two of the three are equal; on success the three
  variables all hold the majority value, the value that at least two of them had; on
  failure they are left as they were.  \<open>reconcileWidth\<close> does this to the width of the header
  and the two variables it is given, \<open>reconcileHeight\<close> to the height, and
  \<open>reconcileDimensions\<close> to the widths and then, if they agree, the heights of the header,
  the colour sub-header and the transparency sub-header: it succeeds exactly when both do,
  after success all three widths are the majority width and all three heights the majority
  height, and no other field is touched.  When the widths or the heights fail to reconcile,
  \<open>readImage\<close> returns the empty image without decoding; when they reconcile, what is
  decoded are the headers as reconciled.\<close>

theorem reconcile_majority:
  "(\<forall>ok a b c. reconcileValue v1 v2 v3 = (ok, a, b, c) \<longrightarrow>
       (ok \<longleftrightarrow> v1 = v2 \<or> v1 = v3 \<or> v2 = v3) \<and>
       (ok \<longrightarrow> a = majority v1 v2 v3 \<and> b = majority v1 v2 v3 \<and> c = majority v1 v2 v3 \<and>
          ((v1 = majority v1 v2 v3 \<and> (v2 = majority v1 v2 v3 \<or> v3 = majority v1 v2 v3)) \<or>
           (v2 = majority v1 v2 v3 \<and> v3 = majority v1 v2 v3))) \<and>
       (\<not> ok \<longrightarrow> a = v1 \<and> b = v2 \<and> c = v3)) \<and>
   (\<forall>ok hdr' c t. reconcileWidth hdr cw tw = (ok, hdr', c, t) \<longrightarrow>
       (ok \<longleftrightarrow> m_width hdr = cw \<or> m_width hdr = tw \<or> cw = tw) \<and>
       (ok \<longrightarrow> m_width hdr' = majority (m_width hdr) cw tw \<and>
          c = majority (m_width hdr) cw tw \<and> t = majority (m_width hdr) cw tw) \<and>
       (\<not> ok \<longrightarrow> hdr' = hdr \<and> c = cw \<and> t = tw) \<and>
       hdr' = hdr\<lparr>m_width := m_width hdr'\<rparr>) \<and>
   (\<forall>ok hdr' c t. reconcileHeight hdr chh thh = (ok, hdr', c, t) \<longrightarrow>
       (ok \<longleftrightarrow> m_height hdr = chh \<or> m_height hdr = thh \<or> chh = thh) \<and>
       (ok \<longrightarrow> m_height hdr' = majority (m_height hdr) chh thh \<and>
          c = majority (m_height hdr) chh thh \<and> t = majority (m_height hdr) chh thh) \<and>
       (\<not> ok \<longrightarrow> hdr' = hdr \<and> c = chh \<and> t = thh) \<and>
       hdr' = hdr\<lparr>m_height := m_height hdr'\<rparr>) \<and>
   (\<forall>ok hdr' ch' th'. reconcileDimensions hdr ch th = (ok, hdr', ch', th') \<longrightarrow>
       (ok \<longleftrightarrow>
          (m_width hdr = cb_width ch \<or> m_width hdr = cb_width th \<or> cb_width ch = cb_width th) \<and>
          (m_height hdr = cb_height ch \<or> m_height hdr = cb_height th \<or>
           cb_height ch = cb_height th)) \<and>
       (ok \<longrightarrow>
          m_width hdr' = majority (m_width hdr) (cb_width ch) (cb_width th) \<and>
          cb_width ch' = majority (m_width hdr) (cb_width ch) (cb_width th) \<and>
          cb_width th' = majority (m_width hdr) (cb_width ch) (cb_width th) \<and>
          m_height hdr' = majority (m_height hdr) (cb_height ch) (cb_height th) \<and>
          cb_height ch' = majority (m_height hdr) (cb_height ch) (cb_height th) \<and>
          cb_height th' = majority (m_height hdr) (cb_height ch) (cb_height th)) \<and>
       (\<not> two_agree (m_width hdr) (cb_width ch) (cb_width th) \<longrightarrow>
          hdr' = hdr \<and> ch' = ch \<and> th' = th) \<and>
       hdr' = hdr\<lparr>m_width := m_width hdr', m_height := m_height hdr'\<rparr> \<and>
       ch' = ch\<lparr>cb_width := cb_width ch', cb_height := cb_height ch'\<rparr> \<and>
       th' = th\<lparr>cb_width := cb_width th', cb_height := cb_height th'\<rparr>) \<and>
   (\<not> fst (reconcileDimensions hdr ch th) \<longrightarrow>
      readImage_headers decode hdr (Some ch) (Some th) = Image_empty) \<and>
   (\<forall>hdr' ch' th'. reconcileDimensions hdr ch th = (True, hdr', ch', th') \<longrightarrow>
      readImage_headers decode hdr (Some ch) (Some th) = decode hdr' ch' (Some th'))"
proof (intro conjI allI impI)
  fix ok a b c
  assume r: "reconcileValue v1 v2 v3 = (ok, a, b, c)"
  show "ok \<longleftrightarrow> v1 = v2 \<or> v1 = v3 \<or> v2 = v3"
    using r by (simp add: reconcileValue_result two_agree_def split: if_splits)
  {
    assume ok
    with r have t: "two_agree v1 v2 v3"
      by (simp add: reconcileValue_result split: if_splits)
    with r show "a = majority v1 v2 v3" "b = majority v1 v2 v3" "c = majority v1 v2 v3"
      by (auto simp: reconcileValue_result)
    from majority_held [OF t]
    show "(v1 = majority v1 v2 v3 \<and> (v2 = majority v1 v2 v3 \<or> v3 = majority v1 v2 v3)) \<or>
           (v2 = majority v1 v2 v3 \<and> v3 = majority v1 v2 v3)" .
  }
  {
    assume "\<not> ok"
    with r show "a = v1" "b = v2" "c = v3"
      by (simp_all add: reconcileValue_result split: if_splits)
  }
next
  fix ok hdr' c t
  assume r: "reconcileWidth hdr cw tw = (ok, hdr', c, t)"
  show "ok \<longleftrightarrow> m_width hdr = cw \<or> m_width hdr = tw \<or> cw = tw"
    using r by (simp add: reconcileWidth_result two_agree_def split: if_splits)
  show "hdr' = hdr\<lparr>m_width := m_width hdr'\<rparr>"
    using r by (auto simp: reconcileWidth_result split: if_splits)
  {
    assume ok
    with r show "m_width hdr' = majority (m_width hdr) cw tw"
      "c = majority (m_width hdr) cw tw" "t = majority (m_width hdr) cw tw"
      by (auto simp: reconcileWidth_result split: if_splits)
  }
  {
    assume "\<not> ok"
    with r show "hdr' = hdr" "c = cw" "t = tw"
      by (auto simp: reconcileWidth_result split: if_splits)
  }
next
  fix ok hdr' c t
  assume r: "reconcileHeight hdr chh thh = (ok, hdr', c, t)"
  show "ok \<longleftrightarrow> m_height hdr = chh \<or> m_height hdr = thh \<or> chh = thh"
    using r by (simp add: reconcileHeight_result two_agree_def split: if_splits)
  show "hdr' = hdr\<lparr>m_height := m_height hdr'\<rparr>"
    using r by (auto simp: reconcileHeight_result split: if_splits)
  {
    assume ok
    with r show "m_height hdr' = majority (m_height hdr) chh thh"
      "c = majority (m_height hdr) chh thh" "t = majority (m_height hdr) chh thh"
      by (auto simp: reconcileHeight_result split: if_splits)
  }
  {
    assume "\<not> ok"
    with r show "hdr' = hdr" "c = chh" "t = thh"
      by (auto simp: reconcileHeight_result split: if_splits)
  }
next
  fix ok hdr' ch' th'
  assume r: "reconcileDimensions hdr ch th = (ok, hdr', ch', th')"
  show "ok \<longleftrightarrow>
          (m_width hdr = cb_width ch \<or> m_width hdr = cb_width th \<or> cb_width ch = cb_width th) \<and>
          (m_height hdr = cb_height ch \<or> m_height hdr = cb_height th \<or>
           cb_height ch = cb_height th)"
    using r reconcileDimensions_ok_iff [of hdr ch th] by simp
  show "hdr' = hdr\<lparr>m_width := m_width hdr', m_height := m_height hdr'\<rparr>"
    using r by (auto simp: reconcileDimensions_result Let_def split: if_splits)
  show "ch' = ch\<lparr>cb_width := cb_width ch', cb_height := cb_height ch'\<rparr>"
    using r by (auto simp: reconcileDimensions_result Let_def split: if_splits)
  show "th' = th\<lparr>cb_width := cb_width th', cb_height := cb_height th'\<rparr>"
    using r by (auto simp: reconcileDimensions_result Let_def split: if_splits)
  {
    assume ok
    with r show "m_width hdr' = majority (m_width hdr) (cb_width ch) (cb_width th)"
      "cb_width ch' = majority (m_width hdr) (cb_width ch) (cb_width th)"
      "cb_width th' = majority (m_width hdr) (cb_width ch) (cb_width th)"
      "m_height hdr' = majority (m_height hdr) (cb_height ch) (cb_height th)"
      "cb_height ch' = majority (m_height hdr) (cb_height ch) (cb_height th)"
      "cb_height th' = majority (m_height hdr) (cb_height ch) (cb_height th)"
      by (auto simp: reconcileDimensions_result Let_def split: if_splits)
  }
  {
    assume "\<not> two_agree (m_width hdr) (cb_width ch) (cb_width th)"
    with r show "hdr' = hdr" "ch' = ch" "th' = th"
      by (simp_all add: reconcileDimensions_result Let_def)
  }
next
  assume "\<not> fst (reconcileDimensions hdr ch th)"
  then show "readImage_headers decode hdr (Some ch) (Some th) = Image_empty"
    by (rule readImage_headers_discards)
next
  fix hdr' ch' th'
  assume "reconcileDimensions hdr ch th = (True, hdr', ch', th')"
  then show "readImage_headers decode hdr (Some ch) (Some th) = decode hdr' ch' (Some th')"
    by (rule readImage_headers_reconciled)
qed

text \<open>A header of 640 by 480 with a colour bitmap of 640 by 480 and a transparency bitmap of
  320 by 480: the transparency width is overwritten with 640.  With heights 480, 100 and 200
  the image is discarded.\<close>

theorem reconcile_majority_witness:
  "reconcileValue 640 320 640 = (True, 640, 640, 640) \<and>
   reconcileValue 1 2 3 = (False, 1, 2, 3) \<and>
   reconcileDimensions wit_hdr (wit_cb 640 480) (wit_cb 320 480) =
     (True, wit_hdr, wit_cb 640 480, wit_cb 640 480) \<and>
   readImage_headers wit_decode wit_hdr (Some (wit_cb 640 480)) (Some (wit_cb 320 480)) =
     wit_decode wit_hdr (wit_cb 640 480) (Some (wit_cb 640 480)) \<and>
   \<not> fst (reconcileDimensions wit_hdr (wit_cb 640 100) (wit_cb 640 200)) \<and>
   readImage_headers wit_decode wit_hdr (Some (wit_cb 640 100)) (Some (wit_cb 640 200)) = Image_empty \<and>
   readImage_headers wit_decode wit_hdr (Some (wit_cb 640 100)) None \<noteq> Image_empty"
proof -
  note T = reconcile_majority [of 640 320 640 wit_hdr 640 320 480 480 "wit_cb 640 480"
      "wit_cb 320 480" wit_decode]
  note U = reconcile_majority [of 1 2 3 wit_hdr 640 320 480 480 "wit_cb 640 100"
      "wit_cb 640 200" wit_decode]
  have m: "majority 640 320 640 = 640" "majority 640 640 320 = 640" "majority 480 480 480 = 480"
    by (simp_all add: majority_def)
  obtain ok a b c where v: "reconcileValue 640 320 640 = (ok, a, b, c)"
    by (cases "reconcileValue 640 320 640") auto
  note V = T [THEN conjunct1, rule_format, OF v]
  from V have "ok" by simp
  with V have "a = 640" "b = 640" "c = 640" by (simp_all add: m)
  with v \<open>ok\<close> have a: "reconcileValue 640 320 640 = (True, 640, 640, 640)" by simp
  obtain ok2 a2 b2 c2 where w: "reconcileValue 1 2 3 = (ok2, a2, b2, c2)"
    by (cases "reconcileValue 1 2 3") auto
  note W = U [THEN conjunct1, rule_format, OF w]
  from W have "\<not> ok2" by simp
  with W have "a2 = 1" "b2 = 2" "c2 = 3" by simp_all
  with w \<open>\<not> ok2\<close> have b: "reconcileValue 1 2 3 = (False, 1, 2, 3)" by simp
  obtain ok3 h3 c3 t3
    where d: "reconcileDimensions wit_hdr (wit_cb 640 480) (wit_cb 320 480) = (ok3, h3, c3, t3)"
    by (cases "reconcileDimensions wit_hdr (wit_cb 640 480) (wit_cb 320 480)") auto
  note D = T [THEN conjunct2, THEN conjunct2, THEN conjunct2, THEN conjunct1, rule_format, OF d]
  have w: "m_width wit_hdr = cb_width (wit_cb 640 480)"
    "m_height wit_hdr = cb_height (wit_cb 640 480)"
    by (simp_all add: wit_hdr_def wit_cb_def)
  from D [THEN conjunct1] w have ok3: "ok3" by blast
  have mm: "majority (m_width wit_hdr) (cb_width (wit_cb 640 480)) (cb_width (wit_cb 320 480)) = 640"
    "majority (m_height wit_hdr) (cb_height (wit_cb 640 480)) (cb_height (wit_cb 320 480)) = 480"
    by (simp_all add: wit_hdr_def wit_cb_def majority_def)
  from D [THEN conjunct2, THEN conjunct1, rule_format, OF ok3]
  have f: "m_width h3 = 640" "cb_width c3 = 640" "cb_width t3 = 640"
    "m_height h3 = 480" "cb_height c3 = 480" "cb_height t3 = 480"
    unfolding mm by blast+
  from D [THEN conjunct2, THEN conjunct2, THEN conjunct2]
  have g: "h3 = wit_hdr\<lparr>m_width := m_width h3, m_height := m_height h3\<rparr>"
    "c3 = (wit_cb 640 480)\<lparr>cb_width := cb_width c3, cb_height := cb_height c3\<rparr>"
    "t3 = (wit_cb 320 480)\<lparr>cb_width := cb_width t3, cb_height := cb_height t3\<rparr>"
    by blast+
  have h3: "h3 = wit_hdr" by (subst g(1)) (simp add: f wit_hdr_def)
  have c3: "c3 = wit_cb 640 480" by (subst g(2)) (simp add: f wit_cb_def)
  have t3: "t3 = wit_cb 640 480" by (subst g(3)) (simp add: f wit_cb_def)
  from d ok3 h3 c3 t3
  have c: "reconcileDimensions wit_hdr (wit_cb 640 480) (wit_cb 320 480) =
     (True, wit_hdr, wit_cb 640 480, wit_cb 640 480)" by simp
  have e: "readImage_headers wit_decode wit_hdr (Some (wit_cb 640 480))
      (Some (wit_cb 320 480)) = wit_decode wit_hdr (wit_cb 640 480) (Some (wit_cb 640 480))"
    by (rule T [THEN conjunct2, THEN conjunct2, THEN conjunct2, THEN conjunct2, THEN conjunct2,
          rule_format, OF c])
  obtain ok4 h4 c4 t4
    where d4: "reconcileDimensions wit_hdr (wit_cb 640 100) (wit_cb 640 200) = (ok4, h4, c4, t4)"
    by (cases "reconcileDimensions wit_hdr (wit_cb 640 100) (wit_cb 640 200)") auto
  note D4 = U [THEN conjunct2, THEN conjunct2, THEN conjunct2, THEN conjunct1, rule_format,
      OF d4]
  from D4 [THEN conjunct1] have "\<not> ok4" by (simp add: wit_hdr_def wit_cb_def)
  with d4 have n: "\<not> fst (reconcileDimensions wit_hdr (wit_cb 640 100) (wit_cb 640 200))"
    by simp
  have i: "readImage_headers wit_decode wit_hdr (Some (wit_cb 640 100))
      (Some (wit_cb 640 200)) = Image_empty"
    by (rule U [THEN conjunct2, THEN conjunct2, THEN conjunct2, THEN conjunct2, THEN conjunct1,
          rule_format, OF n])
  have j: "readImage_headers wit_decode wit_hdr (Some (wit_cb 640 100)) None \<noteq> Image_empty"
    by (simp add: readImage_headers_def wit_decode_def Image_empty_def)
  from a b c e n i j show ?thesis by blast
qed

section \<open>The byte reader: length of a stream\<close>

lemma to_long_to_ulong:
  assumes "- (2 ^ 63) \<le> x" "x < 2 ^ 63"
  shows "to_long (to_ulong x) = x"
proof (cases "0 \<le> x")
  case True
  then have m: "x mod 2 ^ 64 = x" using assms by simp
  have "nat x mod 2 ^ 64 = nat x" using True assms by (simp add: nat_less_iff)
  moreover have "nat x < 2 ^ 63" using True assms by (simp add: nat_less_iff)
  ultimately show ?thesis using True m by (simp add: to_long_def to_ulong_def)
next
  case False
  have "(x + 2 ^ 64) mod 2 ^ 64 = x mod 2 ^ 64" by simp
  moreover have "(x + 2 ^ 64) mod 2 ^ 64 = x + 2 ^ 64"
    using False assms by (intro mod_pos_pos_trivial) simp_all
  ultimately have m: "x mod 2 ^ 64 = x + 2 ^ 64" by simp
  have n: "nat (x + 2 ^ 64) mod 2 ^ 64 = nat (x + 2 ^ 64)"
    using False assms by (simp add: nat_less_iff)
  have "\<not> nat (x + 2 ^ 64) < 2 ^ 63" using assms by (simp add: nat_less_iff)
  then show ?thesis using assms m n by (simp add: to_long_def to_ulong_def)
qed

lemma readU8_mem:
  assumes "0 \<le> offset s" "offset s < int (length (buffer s))"
  shows "readU8 mem_io s = Inr (buffer s ! nat (offset s), s\<lparr>offset := offset s + 1\<rparr>)"
proof -
  have k: "nat (offset s) < length (buffer s)" using assms by linarith
  have "min 1 (length (buffer s) - nat (offset s)) = 1" using k by linarith
  moreover have "take 1 (drop (nat (offset s)) (buffer s)) = [buffer s ! nat (offset s)]"
    using k by (simp add: take_Suc_conv_app_nth)
  ultimately show ?thesis using assms
    by (simp add: readU8_def checkStream_def mem_io_def mem_isEnd_def mem_read_def Let_def)
qed

lemma readToEnd_mem:
  assumes "0 \<le> offset s" "offset s \<le> int (length (buffer s))"
  shows "readToEnd mem_io s = Some (Inr (s\<lparr>offset := int (length (buffer s))\<rparr>))"
  using assms
proof (induction "nat (int (length (buffer s)) - offset s)" arbitrary: s)
  case 0
  then have "offset s = int (length (buffer s))" by linarith
  then show ?case
    by (subst readToEnd.simps) (simp add: mem_io_def mem_isEnd_def)
next
  case (Suc n)
  then have lt: "offset s < int (length (buffer s))" by linarith
  let ?s' = "s\<lparr>offset := offset s + 1\<rparr>"
  have "readToEnd mem_io ?s' = Some (Inr (?s'\<lparr>offset := int (length (buffer ?s'))\<rparr>))"
    using Suc lt by (intro Suc.hyps(1)) auto
  then show ?case
    using readU8_mem [OF Suc.prems(1) lt] lt
    by (subst readToEnd.simps) (simp add: mem_io_def mem_isEnd_def)
qed


lemma to_ulong_nonneg: "0 \<le> x \<Longrightarrow> x < 2 ^ 64 \<Longrightarrow> to_ulong x = nat x"
  by (simp add: to_ulong_def)

lemma seekToEnd_mem:
  assumes "0 \<le> offset s" "offset s \<le> int (length (buffer s))"
  shows "seekToEnd mem_io s = Some (Inr (s\<lparr>offset := int (length (buffer s))\<rparr>))"
proof (cases "seekEnd s")
  case True
  then show ?thesis
    by (simp add: seekToEnd_def mem_io_def mem_seek_def)
next
  case False
  then have "rvng_seek mem_io 0 RVNG_SEEK_END s = (-1, s)"
    by (simp add: mem_io_def mem_seek_def)
  then show ?thesis
    using readToEnd_mem [OF assms] by (simp add: seekToEnd_def)
qed

lemma getLength_mem:
  assumes "0 \<le> offset s" "offset s < int (length (buffer s))" "int (length (buffer s)) < 2 ^ 63"
  shows "getLength mem_io (Some s) = Some (Inr (length (buffer s) - nat (offset s), s))"
proof -
  let ?n = "int (length (buffer s))"
  let ?s2 = "s\<lparr>offset := ?n\<rparr>"
  have n: "?n < 2 ^ 63" using assms(3) .
  have chk: "checkStream mem_io (Some s) = Inr ()"
    using assms by (simp add: checkStream_def mem_io_def mem_isEnd_def)
  have e: "seekToEnd mem_io s = Some (Inr ?s2)"
    using assms by (intro seekToEnd_mem) simp_all
  have rt: "to_long (to_ulong (offset s)) = offset s"
    using assms n by (intro to_long_to_ulong) simp_all
  have sk: "seek mem_io (to_ulong (offset s)) ?s2 = Inr s"
    using assms by (simp add: seek_def rt mem_io_def mem_seek_def)
  have len: "to_ulong (?n - offset s) = length (buffer s) - nat (offset s)"
  proof -
    have "to_ulong (?n - offset s) = nat (?n - offset s)"
      using assms n by (intro to_ulong_nonneg) simp_all
    then show ?thesis using assms by linarith
  qed
  have t1: "rvng_tell mem_io s = offset s" and t2: "rvng_tell mem_io ?s2 = ?n"
    by (simp_all add: mem_io_def)
  show ?thesis
    using assms by (simp add: getLength_def chk e sk len t1 t2 Let_def)
qed

lemma getLength_returns:
  assumes ret: "getLength io (Some s) = Some (Inr (n, s'))"
    and set_ok: "\<forall>p t t'. rvng_seek io p RVNG_SEEK_SET t = (0, t') \<longrightarrow> rvng_tell io t' = p"
    and range: "- (2 ^ 63) \<le> rvng_tell io s" "rvng_tell io s < 2 ^ 63"
  shows "rvng_tell io s' = rvng_tell io s \<and>
         (\<exists>s2. seekToEnd io s = Some (Inr s2) \<and> rvng_tell io s \<le> rvng_tell io s2 \<and>
               n = to_ulong (rvng_tell io s2 - rvng_tell io s))"
proof -
  from ret have chk: "checkStream io (Some s) = Inr ()"
    by (auto simp: getLength_def split: sum.splits)
  from ret chk obtain s2 where e: "seekToEnd io s = Some (Inr s2)"
    by (auto simp: getLength_def Let_def split: option.splits sum.splits)
  from ret chk e have le: "rvng_tell io s \<le> rvng_tell io s2"
    by (auto simp: getLength_def Let_def split: if_splits)
  from ret chk e le have sk: "seek io (to_ulong (rvng_tell io s)) s2 = Inr s'"
    and n: "n = to_ulong (rvng_tell io s2 - rvng_tell io s)"
    by (auto simp: getLength_def Let_def split: sum.splits)
  from sk have "rvng_seek io (to_long (to_ulong (rvng_tell io s))) RVNG_SEEK_SET s2 = (0, s')"
    by (auto simp: seek_def split: prod.splits if_splits)
  then have "rvng_seek io (rvng_tell io s) RVNG_SEEK_SET s2 = (0, s')"
    using to_long_to_ulong [OF range] by simp
  with set_ok have "rvng_tell io s' = rvng_tell io s" by blast
  with e le n show ?thesis by blast
qed

lemma getLength_at_end:
  "rvng_isEnd io s \<Longrightarrow> getLength io (Some s) = Some (Inl EndOfStreamException)"
  by (simp add: getLength_def checkStream_def)

lemma getLength_end_before_begin:
  assumes "\<not> rvng_isEnd io s" "seekToEnd io s = Some (Inr s2)" "rvng_tell io s2 < rvng_tell io s"
  shows "getLength io (Some s) = Some (Inl SeekFailedException)"
  using assms by (simp add: getLength_def checkStream_def Let_def)

lemma getLength_seek_back_fails:
  assumes "\<not> rvng_isEnd io s" "seekToEnd io s = Some (Inr s2)"
    "fst (rvng_seek io (to_long (to_ulong (rvng_tell io s))) RVNG_SEEK_SET s2) \<noteq> 0"
  shows "getLength io (Some s) = Some (Inl SeekFailedException)"
  using assms by (auto simp: getLength_def checkStream_def Let_def seek_def split: prod.splits)

text \<open>The readers on the in-memory stream, for evaluating concrete inputs.\<close>

lemma take2_drop:
  assumes "k + 2 \<le> length bs"
  shows "take 2 (drop k bs) = [bs ! k, bs ! (k + 1)]"
proof (rule nth_equalityI)
  show "length (take 2 (drop k bs)) = length [bs ! k, bs ! (k + 1)]"
    using assms by simp
next
  fix i assume "i < length (take 2 (drop k bs))"
  then have "i < 2" by simp
  then have "i = 0 \<or> i = 1" by linarith
  then show "take 2 (drop k bs) ! i = [bs ! k, bs ! (k + 1)] ! i"
    using assms by (elim disjE) simp_all
qed

lemma take4_drop:
  assumes "k + 4 \<le> length bs"
  shows "take 4 (drop k bs) = [bs ! k, bs ! (k + 1), bs ! (k + 2), bs ! (k + 3)]"
proof (rule nth_equalityI)
  show "length (take 4 (drop k bs)) = length [bs ! k, bs ! (k + 1), bs ! (k + 2), bs ! (k + 3)]"
    using assms by simp
next
  fix i assume "i < length (take 4 (drop k bs))"
  then have "i < 4" by simp
  then have "i = 0 \<or> i = 1 \<or> i = 2 \<or> i = 3" by linarith
  then show "take 4 (drop k bs) ! i = [bs ! k, bs ! (k + 1), bs ! (k + 2), bs ! (k + 3)] ! i"
    using assms by (elim disjE) (simp_all add: numeral_3_eq_3)
qed

lemma readU16_mem:
  assumes "0 \<le> offset s" "offset s + 2 \<le> int (length (buffer s))"
  shows "readU16 mem_io s =
    Inr (ucast (buffer s ! nat (offset s)) OR push_bit 8 (ucast (buffer s ! (nat (offset s) + 1))),
         s\<lparr>offset := offset s + 2\<rparr>)"
proof -
  have k: "nat (offset s) + 2 \<le> length (buffer s)" using assms by linarith
  then have "min 2 (length (buffer s) - nat (offset s)) = 2" by linarith
  then show ?thesis using assms take2_drop [OF k]
    by (simp add: readU16_def checkStream_def mem_io_def mem_isEnd_def mem_read_def Let_def)
qed

lemma readU32_mem:
  assumes "0 \<le> offset s" "offset s + 4 \<le> int (length (buffer s))"
  shows "readU32 mem_io s =
    Inr (ucast (buffer s ! nat (offset s)) OR push_bit 8 (ucast (buffer s ! (nat (offset s) + 1)))
           OR push_bit 16 (ucast (buffer s ! (nat (offset s) + 2)))
           OR push_bit 24 (ucast (buffer s ! (nat (offset s) + 3))),
         s\<lparr>offset := offset s + 4\<rparr>)"
proof -
  have k: "nat (offset s) + 4 \<le> length (buffer s)" using assms by linarith
  then have "min 4 (length (buffer s) - nat (offset s)) = 4" by linarith
  then show ?thesis using assms take4_drop [OF k]
    by (simp add: readU32_def checkStream_def mem_io_def mem_isEnd_def mem_read_def Let_def)
qed

lemma to_long_small: "n < 2 ^ 63 \<Longrightarrow> to_long n = int n"
  by (simp add: to_long_def)

lemma skip_mem:
  assumes "0 \<le> offset s" "offset s < int (length (buffer s))"
    "offset s + int n \<le> int (length (buffer s))" "n < 2 ^ 63"
  shows "skip mem_io n s = Inr (s\<lparr>offset := offset s + int n\<rparr>)"
  using assms
  by (simp add: skip_def seekRelative_def checkStream_def mem_io_def mem_isEnd_def mem_seek_def
      Let_def to_long_small)

lemma seek_mem:
  assumes "int n \<le> int (length (buffer s))" "n < 2 ^ 63"
  shows "seek mem_io n s = Inr (s\<lparr>offset := int n\<rparr>)"
  using assms
  by (simp add: seek_def mem_io_def mem_seek_def Let_def to_long_small)

lemma mem_seek_set_ok:
  "\<forall>p t t'. rvng_seek mem_io p RVNG_SEEK_SET t = (0, t') \<longrightarrow> rvng_tell mem_io t' = p"
  by (auto simp: mem_io_def mem_seek_def Let_def split: if_splits)

lemma getLength_returns_iff:
  "getLength io (Some s) = Some (Inr (n, s')) \<longleftrightarrow>
     \<not> rvng_isEnd io s \<and>
     (\<exists>s2. seekToEnd io s = Some (Inr s2) \<and> rvng_tell io s \<le> rvng_tell io s2 \<and>
           seek io (to_ulong (rvng_tell io s)) s2 = Inr s' \<and>
           n = to_ulong (rvng_tell io s2 - rvng_tell io s))"
  by (auto simp: getLength_def checkStream_def Let_def split: option.splits sum.splits)

lemma getLength_reading_raises:
  "\<not> rvng_isEnd io s \<Longrightarrow> seekToEnd io s = Some (Inl e) \<Longrightarrow> getLength io (Some s) = Some (Inl e)"
  by (simp add: getLength_def checkStream_def)

lemma getLength_reading_forever:
  "\<not> rvng_isEnd io s \<Longrightarrow> seekToEnd io s = None \<Longrightarrow> getLength io (Some s) = None"
  by (simp add: getLength_def checkStream_def)

text \<open>C10, as stated, fails for a stream that is at its end on entry: the stream is not null,
  the end is found where the stream already is (not before the entry position) and the seek
  back to the entry position would succeed, yet \<open>getLength\<close> raises the end-of-stream
  exception of \<open>checkStream\<close> instead of returning 0.  So it does for the empty stream.\<close>

theorem getLength_at_end_counterexample:
  "getLength mem_io (Some wit_at_end) = Some (Inl EndOfStreamException) \<and>
   seekToEnd mem_io wit_at_end = Some (Inr wit_at_end) \<and>
   seek mem_io (to_ulong (rvng_tell mem_io wit_at_end)) wit_at_end = Inr wit_at_end \<and>
   getLength mem_io (Some (stream_of [])) = Some (Inl EndOfStreamException)"
proof -
  have a: "getLength mem_io (Some wit_at_end) = Some (Inl EndOfStreamException)"
    by (rule getLength_at_end) (simp add: mem_io_def mem_isEnd_def wit_at_end_def)
  have b: "seekToEnd mem_io wit_at_end = Some (Inr wit_at_end)"
    by (simp add: seekToEnd_def mem_io_def mem_seek_def wit_at_end_def)
  have c: "seek mem_io (to_ulong (rvng_tell mem_io wit_at_end)) wit_at_end = Inr wit_at_end"
    by (simp add: seek_def mem_io_def mem_seek_def wit_at_end_def to_ulong_def to_long_def)
  have d: "getLength mem_io (Some (stream_of [])) = Some (Inl EndOfStreamException)"
    by (rule getLength_at_end) (simp add: mem_io_def mem_isEnd_def stream_of_def)
  from a b c d show ?thesis by simp
qed

text \<open>C10, amended.  \<open>getLength\<close> on a stream pointer that is not null.  It returns exactly
  when the stream is not at its end on entry, the end is found (by \<open>seek(0, RVNG_SEEK_END)\<close>
  or, failing that, by reading up to the end), the end is not before the entry position and
  the seek back to the entry position succeeds; the value is then the end position minus the
  entry position, and the stream is back at the position it had on entry (for every stream
  whose successful absolute seek lands where it was asked to).  It raises instead of
  returning when the stream is at its end on entry (end of stream), when the end found is
  before the entry position and when the seek back fails (seek failed), and when reading up
  to the end raises; it does not return when reading up to the end never ends.  On the
  in-memory stream, with or without support for seeking to the end, it does return when the
  stream is not at its end, and the whole stream state is as before.\<close>

theorem getLength_restores_position:
  "(getLength io (Some s) = Some (Inr (n, s')) \<longleftrightarrow>
     \<not> rvng_isEnd io s \<and>
     (\<exists>s2. seekToEnd io s = Some (Inr s2) \<and> rvng_tell io s \<le> rvng_tell io s2 \<and>
           seek io (to_ulong (rvng_tell io s)) s2 = Inr s' \<and>
           n = to_ulong (rvng_tell io s2 - rvng_tell io s))) \<and>
   (\<forall>e. \<not> rvng_isEnd io s \<and> seekToEnd io s = Some (Inl e) \<longrightarrow>
       getLength io (Some s) = Some (Inl e)) \<and>
   (\<not> rvng_isEnd io s \<and> seekToEnd io s = None \<longrightarrow> getLength io (Some s) = None) \<and>
   (\<forall>n s'. getLength io (Some s) = Some (Inr (n, s')) \<and>
       (\<forall>p t t'. rvng_seek io p RVNG_SEEK_SET t = (0, t') \<longrightarrow> rvng_tell io t' = p) \<and>
       - (2 ^ 63) \<le> rvng_tell io s \<and> rvng_tell io s < 2 ^ 63 \<longrightarrow>
       rvng_tell io s' = rvng_tell io s \<and>
       (\<exists>s2. seekToEnd io s = Some (Inr s2) \<and> rvng_tell io s \<le> rvng_tell io s2 \<and>
             n = to_ulong (rvng_tell io s2 - rvng_tell io s))) \<and>
   (rvng_isEnd io s \<longrightarrow> getLength io (Some s) = Some (Inl EndOfStreamException)) \<and>
   (\<forall>s2. \<not> rvng_isEnd io s \<and> seekToEnd io s = Some (Inr s2) \<and>
       rvng_tell io s2 < rvng_tell io s \<longrightarrow>
       getLength io (Some s) = Some (Inl SeekFailedException)) \<and>
   (\<forall>s2. \<not> rvng_isEnd io s \<and> seekToEnd io s = Some (Inr s2) \<and>
       fst (rvng_seek io (to_long (to_ulong (rvng_tell io s))) RVNG_SEEK_SET s2) \<noteq> 0 \<longrightarrow>
       getLength io (Some s) = Some (Inl SeekFailedException)) \<and>
   (0 \<le> offset m \<and> offset m < int (length (buffer m)) \<and> int (length (buffer m)) < 2 ^ 63 \<longrightarrow>
       getLength mem_io (Some m) = Some (Inr (length (buffer m) - nat (offset m), m)))"
proof (intro conjI allI impI; (elim conjE)?)
  show "getLength io (Some s) = Some (Inr (n, s')) \<longleftrightarrow>
     \<not> rvng_isEnd io s \<and>
     (\<exists>s2. seekToEnd io s = Some (Inr s2) \<and> rvng_tell io s \<le> rvng_tell io s2 \<and>
           seek io (to_ulong (rvng_tell io s)) s2 = Inr s' \<and>
           n = to_ulong (rvng_tell io s2 - rvng_tell io s))"
    by (rule getLength_returns_iff)
next
  fix e
  assume "\<not> rvng_isEnd io s" and "seekToEnd io s = Some (Inl e)"
  then show "getLength io (Some s) = Some (Inl e)" by (rule getLength_reading_raises)
next
  assume "\<not> rvng_isEnd io s" and "seekToEnd io s = None"
  then show "getLength io (Some s) = None" by (rule getLength_reading_forever)
next
  fix n s'
  assume a1: "getLength io (Some s) = Some (Inr (n, s'))"
    and a2: "\<forall>p t t'. rvng_seek io p RVNG_SEEK_SET t = (0, t') \<longrightarrow> rvng_tell io t' = p"
    and a3: "- (2 ^ 63) \<le> rvng_tell io s" and a4: "rvng_tell io s < 2 ^ 63"
  have r: "rvng_tell io s' = rvng_tell io s \<and>
         (\<exists>s2. seekToEnd io s = Some (Inr s2) \<and> rvng_tell io s \<le> rvng_tell io s2 \<and>
               n = to_ulong (rvng_tell io s2 - rvng_tell io s))"
    by (rule getLength_returns [OF a1 a2 a3 a4])
  from r show "rvng_tell io s' = rvng_tell io s" ..
  from r show "\<exists>s2. seekToEnd io s = Some (Inr s2) \<and> rvng_tell io s \<le> rvng_tell io s2 \<and>
               n = to_ulong (rvng_tell io s2 - rvng_tell io s)" ..
next
  assume "rvng_isEnd io s"
  then show "getLength io (Some s) = Some (Inl EndOfStreamException)"
    by (rule getLength_at_end)
next
  fix s2
  assume b1: "\<not> rvng_isEnd io s" and b2: "seekToEnd io s = Some (Inr s2)"
    and b3: "rvng_tell io s2 < rvng_tell io s"
  show "getLength io (Some s) = Some (Inl SeekFailedException)"
    by (rule getLength_end_before_begin [OF b1 b2 b3])
next
  fix s2
  assume c1: "\<not> rvng_isEnd io s" and c2: "seekToEnd io s = Some (Inr s2)"
    and c3: "fst (rvng_seek io (to_long (to_ulong (rvng_tell io s))) RVNG_SEEK_SET s2) \<noteq> 0"
  show "getLength io (Some s) = Some (Inl SeekFailedException)"
    by (rule getLength_seek_back_fails [OF c1 c2 c3])
next
  assume d1: "0 \<le> offset m" and d2: "offset m < int (length (buffer m))"
    and d3: "int (length (buffer m)) < 2 ^ 63"
  show "getLength mem_io (Some m) = Some (Inr (length (buffer m) - nat (offset m), m))"
    by (rule getLength_mem [OF d1 d2 d3])
qed

theorem getLength_restores_position_witness:
  "getLength mem_io (Some wit_mid) = Some (Inr (3, wit_mid)) \<and>
   \<not> rvng_isEnd mem_io wit_mid \<and>
   (\<exists>s2. seekToEnd mem_io wit_mid = Some (Inr s2) \<and>
      rvng_tell mem_io wit_mid \<le> rvng_tell mem_io s2 \<and>
      seek mem_io (to_ulong (rvng_tell mem_io wit_mid)) s2 = Inr wit_mid \<and>
      3 = to_ulong (rvng_tell mem_io s2 - rvng_tell mem_io wit_mid)) \<and>
   getLength mem_io (Some wit_at_end) = Some (Inl EndOfStreamException) \<and>
   getLength odd_io (Some wit_second) = Some (Inl SeekFailedException) \<and>
   getLength mem_io (Some wit_before_start) = Some (Inl SeekFailedException)"
proof -
  note T = getLength_restores_position
    [where io = mem_io and s = wit_mid and m = wit_mid and n = 3 and s' = wit_mid]
  have h: "0 \<le> offset wit_mid \<and> offset wit_mid < int (length (buffer wit_mid)) \<and>
      int (length (buffer wit_mid)) < 2 ^ 63"
    by (simp add: wit_mid_def)
  from T [THEN conjunct2, THEN conjunct2, THEN conjunct2, THEN conjunct2, THEN conjunct2,
      THEN conjunct2, THEN conjunct2, rule_format, OF h]
  have r5: "getLength mem_io (Some wit_mid) = Some (Inr (3, wit_mid))"
    by (simp add: wit_mid_def)
  from T [THEN conjunct1] r5
  have r1: "\<not> rvng_isEnd mem_io wit_mid \<and>
    (\<exists>s2. seekToEnd mem_io wit_mid = Some (Inr s2) \<and>
      rvng_tell mem_io wit_mid \<le> rvng_tell mem_io s2 \<and>
      seek mem_io (to_ulong (rvng_tell mem_io wit_mid)) s2 = Inr wit_mid \<and>
      3 = to_ulong (rvng_tell mem_io s2 - rvng_tell mem_io wit_mid))"
    by (rule iffD1)
  note E = getLength_restores_position
    [where io = mem_io and s = wit_at_end and m = wit_mid and n = 0 and s' = wit_at_end]
  have e: "rvng_isEnd mem_io wit_at_end"
    by (simp add: mem_io_def mem_isEnd_def wit_at_end_def)
  have r2: "getLength mem_io (Some wit_at_end) = Some (Inl EndOfStreamException)"
    by (rule E [THEN conjunct2, THEN conjunct2, THEN conjunct2, THEN conjunct2, THEN conjunct1,
          rule_format, OF e])
  note O = getLength_restores_position
    [where io = odd_io and s = wit_second and m = wit_mid and n = 0 and s' = wit_second]
  have o: "\<not> rvng_isEnd odd_io wit_second \<and>
      seekToEnd odd_io wit_second = Some (Inr (wit_second\<lparr>offset := 3\<rparr>)) \<and>
      rvng_tell odd_io (wit_second\<lparr>offset := 3\<rparr>) < rvng_tell odd_io wit_second"
    by (simp add: seekToEnd_def odd_io_def mem_io_def mem_seek_def mem_isEnd_def wit_second_def)
  have r3: "getLength odd_io (Some wit_second) = Some (Inl SeekFailedException)"
    by (rule O [THEN conjunct2, THEN conjunct2, THEN conjunct2, THEN conjunct2, THEN conjunct2,
          THEN conjunct1, rule_format, OF o])
  note B = getLength_restores_position
    [where io = mem_io and s = wit_before_start and m = wit_mid and n = 0
       and s' = wit_before_start]
  have b0: "to_long (to_ulong (- 1)) = - 1"
    by (simp add: to_long_def to_ulong_def)
  have b: "\<not> rvng_isEnd mem_io wit_before_start \<and>
      seekToEnd mem_io wit_before_start = Some (Inr (wit_before_start\<lparr>offset := 3\<rparr>)) \<and>
      fst (rvng_seek mem_io (to_long (to_ulong (rvng_tell mem_io wit_before_start)))
              RVNG_SEEK_SET (wit_before_start\<lparr>offset := 3\<rparr>)) \<noteq> 0"
    using b0 by (simp add: seekToEnd_def mem_io_def mem_seek_def mem_isEnd_def wit_before_start_def)
  have r4: "getLength mem_io (Some wit_before_start) = Some (Inl SeekFailedException)"
    by (rule B [THEN conjunct2, THEN conjunct2, THEN conjunct2, THEN conjunct2, THEN conjunct2,
          THEN conjunct2, THEN conjunct1, rule_format, OF b])
  from r5 r1 r2 r3 r4 show ?thesis by simp
qed

section \<open>Bitmap pixel assembly: palette indexes\<close>

lemma shift_mask_values:
  "pixel_shift 1 = 7" "pixel_mask 1 = 0x80"
  "pixel_shift 4 = 4" "pixel_mask 4 = 0xF0"
  "pixel_shift 8 = 0" "pixel_mask 8 = 0xFF"
  by (simp_all add: pixel_shift_def pixel_mask_def)

lemma masked_shift_bound:
  fixes x m :: u32
  shows "unat (drop_bit n (x AND m)) \<le> unat m div 2 ^ n"
proof -
  have "unat (x AND m) \<le> unat m"
    by (rule word_and_le1 [THEN word_le_nat_alt [THEN iffD1]])
  then have "unat (x AND m) div 2 ^ n \<le> unat m div 2 ^ n"
    by (rule div_le_mono)
  moreover have "unat (drop_bit n (x AND m)) = drop_bit n (unat (x AND m))"
    by (rule unat_drop_bit_eq)
  moreover have "drop_bit n (unat (x AND m)) = unat (x AND m) div 2 ^ n"
    by (rule drop_bit_eq_div)
  ultimately show ?thesis by linarith
qed

lemma unat_ucast_le: "unat (ucast (w :: u32) :: u8) \<le> unat w"
  by (simp add: unsigned_ucast_eq take_bit_nat_eq_self_iff take_bit_nat_def)

lemma palette_index_bound:
  assumes "d = 1 \<or> d = 4 \<or> d = 8"
  shows "unat (palette_index d b) < 2 ^ unat d"
proof -
  have le: "unat (palette_index d b) \<le> unat (pixel_mask d) div 2 ^ unat (pixel_shift d)"
    unfolding palette_index_def
    by (rule order_trans [OF unat_ucast_le masked_shift_bound])
  from assms show ?thesis
  proof (elim disjE)
    assume "d = 1" with le show ?thesis by (simp add: shift_mask_values)
  next
    assume "d = 4" with le show ?thesis by (simp add: shift_mask_values)
  next
    assume "d = 8" with le show ?thesis by (simp add: shift_mask_values)
  qed
qed

lemma readColors_length:
  "readColors io n s = Inr (cs, s') \<Longrightarrow> length cs = n"
  by (induction n arbitrary: s cs) (auto split: sum.splits prod.splits)

lemma readColorPalette_length:
  assumes "d = 1 \<or> d = 4 \<or> d = 8" "readColorPalette io d s = Inr (cs, s')"
  shows "length cs = 2 ^ unat d"
proof -
  have "unat (push_bit (unat d) 1 :: u32) = 2 ^ unat d"
    using assms(1) by (elim disjE) simp_all
  with assms(2) show ?thesis
    by (simp add: readColorPalette_def readColors_length)
qed

lemma unpack_indexes_in_bounds:
  assumes "d = 1 \<or> d = 4 \<or> d = 8" "length pal = 2 ^ unat d"
  shows "unpack_indexes pal d w n b col \<noteq> None"
proof (induction n arbitrary: b col)
  case 0
  show ?case by simp
next
  case (Suc n)
  have "unat (palette_index d b) < length pal"
    using palette_index_bound [OF assms(1)] assms(2) by simp
  then show ?case
    using Suc [of "push_bit (unat d) b" "col + 1"]
    by (auto simp: Let_def split: option.splits)
qed

text \<open>C9.  For a colour depth of 1, 4 or 8, \<open>shift\<close> is 8 minus the depth, every index
  \<open>(indexes & mask) >> shift\<close> taken from a data byte is below \<open>2 ^ depth\<close>, a palette that
  \<open>readColorPalette\<close> returns has exactly \<open>2 ^ depth\<close> entries, and so the inner loop of the
  pixel assembly never reads \<open>colorPalette\<close> outside the vector, whatever the data byte, the
  column and the width are.\<close>

theorem palette_index_in_bounds:
  assumes "d = 1 \<or> d = 4 \<or> d = 8"
  shows "pixel_shift d = 8 - d \<and>
         unat (palette_index d b) < 2 ^ unat d \<and>
         (\<forall>cs s'. readColorPalette io d s = Inr (cs, s') \<longrightarrow>
            length cs = 2 ^ unat d \<and> unpack_byte cs d w b col \<noteq> None)"
proof (intro conjI allI impI)
  from assms show "pixel_shift d = 8 - d"
    by (elim disjE) (simp_all add: shift_mask_values)
  show "unat (palette_index d b) < 2 ^ unat d"
    by (rule palette_index_bound [OF assms])
next
  fix cs s'
  assume r: "readColorPalette io d s = Inr (cs, s')"
  show len: "length cs = 2 ^ unat d"
    by (rule readColorPalette_length [OF assms r])
  show "unpack_byte cs d w b col \<noteq> None"
    unfolding unpack_byte_def by (rule unpack_indexes_in_bounds [OF assms len])
qed

lemma readColors_unfold:
  assumes "0 < n"
  shows "readColors io n s =
     (case readU8 io s of Inl e \<Rightarrow> Inl e | Inr (b, s1) \<Rightarrow>
      case readU8 io s1 of Inl e \<Rightarrow> Inl e | Inr (g, s2) \<Rightarrow>
      case readU8 io s2 of Inl e \<Rightarrow> Inl e | Inr (r, s3) \<Rightarrow>
      case skip io 1 s3 of Inl e \<Rightarrow> Inl e | Inr s4 \<Rightarrow>
      case readColors io (n - 1) s4 of Inl e \<Rightarrow> Inl e | Inr (cs, s5) \<Rightarrow>
        Inr (\<lparr>red = r, green = g, blue = b\<rparr> # cs, s5))"
proof -
  from assms obtain m where n: "n = Suc m" by (cases n) auto
  show ?thesis unfolding n by (simp only: readColors.simps diff_Suc_1)
qed

lemma unpack_indexes_unfold:
  assumes "0 < n"
  shows "unpack_indexes colorPalette colorDepth width n indexes col =
     (let index = palette_index colorDepth indexes in
      if unat index \<ge> length colorPalette then None
      else
        let c = colorPalette ! unat index;
            indexes' = push_bit (unat colorDepth) indexes;
            col' = col + 1
        in if col' = width then Some ([c], col')
           else (case unpack_indexes colorPalette colorDepth width (n - 1) indexes' col' of
                   None \<Rightarrow> None
                 | Some (cs, col'') \<Rightarrow> Some (c # cs, col'')))"
proof -
  from assms obtain m where n: "n = Suc m" by (cases n) auto
  show ?thesis unfolding n by (simp only: unpack_indexes.simps diff_Suc_1)
qed

lemma wit_palette_read: "readColorPalette mem_io 1 (stream_of wit_palette_bytes) =
   Inr (wit_palette, \<lparr>buffer = wit_palette_bytes, offset = 8, seekEnd = True\<rparr>)"
  by (simp add: readColorPalette_def stream_of_def wit_palette_bytes_def wit_palette_def
      readColors_unfold readU8_mem skip_mem)

lemma wit_palette_unpack: "unpack_byte wit_palette 1 3 0xA5 0 = Some ([wit_palette ! 1, wit_palette ! 0, wit_palette ! 1], 3)"
  by (simp add: unpack_byte_def unpack_indexes_unfold wit_palette_def palette_index_def
      shift_mask_values Let_def)

theorem palette_index_in_bounds_witness:
  "pixel_shift 1 = 7 \<and> unat (palette_index 1 0xA5) < 2 \<and>
   readColorPalette mem_io 1 (stream_of wit_palette_bytes) =
     Inr (wit_palette, \<lparr>buffer = wit_palette_bytes, offset = 8, seekEnd = True\<rparr>) \<and>
   length wit_palette = 2 \<and>
   unpack_byte wit_palette 1 3 0xA5 0 =
     Some ([wit_palette ! 1, wit_palette ! 0, wit_palette ! 1], 3)"
  using palette_index_in_bounds [of 1 "0xA5" mem_io "stream_of wit_palette_bytes" 3 0]
    wit_palette_read wit_palette_unpack
  by simp

section \<open>Pen dash pattern\<close>

lemma dash_loop_sum:
  assumes "dash_loop bs cur prev pat = (pat', cur')" "1 \<le> cur" "\<forall>x \<in> set pat. 1 \<le> x"
  shows "sum_list pat' + cur' = sum_list pat + cur + int (length bs) \<and> 1 \<le> cur' \<and>
         (\<forall>x \<in> set pat'. 1 \<le> x)"
  using assms
proof (induction bs arbitrary: cur prev pat)
  case Nil
  then show ?case by simp
next
  case (Cons b bs)
  show ?case
  proof (cases "b \<noteq> prev")
    case True
    with Cons.prems have "dash_loop bs 1 b (pat @ [cur]) = (pat', cur')" by simp
    from Cons.IH [OF this] Cons.prems show ?thesis by simp
  next
    case False
    with Cons.prems have "dash_loop bs (cur + 1) b pat = (pat', cur')" by simp
    from Cons.IH [OF this] Cons.prems show ?thesis by simp
  qed
qed

lemma bytesToBitset_length: "length bytes = 6 \<Longrightarrow> length (bytesToBitset 6 bytes) = 48"
proof -
  have l: "\<And>c. length (byte_bits 8 c) = 8" by (simp add: eval_nat_numeral)
  assume "length bytes = 6"
  then show ?thesis
    by (simp add: bytesToBitset_def length_concat l comp_def sum_list_triv)
qed

lemma readNBytes_length: "readNBytes io n s = Inr (bs, s') \<Longrightarrow> length bs = n"
  by (auto simp: readNBytes_def split: sum.splits prod.splits option.splits if_splits)

lemma div_le_ceiling: "int n div 1024 \<le> \<lceil>real n / 1024\<rceil>"
proof -
  have "\<lfloor>real n / real 1024\<rfloor> = int (n div 1024)"
    by (rule floor_divide_of_nat_eq)
  then have "int n div 1024 = \<lfloor>real n / 1024\<rfloor>"
    by (simp add: zdiv_int)
  then show ?thesis by (simp add: floor_le_ceiling)
qed

lemma decodeDash_sum:
  assumes "length bytes = 6" "\<not> bitset_all (bytesToBitset 6 bytes)"
  shows "0 \<le> sum_list (dashPattern (decodeDash bytes dl)) \<and>
         sum_list (dashPattern (decodeDash bytes dl)) \<le> 23 \<and>
         dashDistance (decodeDash bytes dl) =
           max 1 (int (unat dl) div 1024 - sum_list (dashPattern (decodeDash bytes dl)))"
proof -
  let ?bits = "take 23 (drop 1 (bytesToBitset 6 bytes))"
  obtain pat cur where d: "dash_loop ?bits 1 True [] = (pat, cur)" by (cases "dash_loop ?bits 1 True []")
  have len: "length ?bits = 23" using bytesToBitset_length [OF assms(1)] by simp
  from dash_loop_sum [OF d] len have s: "sum_list pat + cur = 24" "1 \<le> cur" "\<forall>x \<in> set pat. 1 \<le> x"
    by simp_all
  from s(3) have "0 \<le> sum_list pat" by (induction pat) auto
  with s d assms(2) show ?thesis
    by (simp add: decodeDash_def Let_def max_def)
qed

lemma wit_dash_decode:
  "decodeDash wit_dash_bytes 2048 = \<lparr>dashPattern = [4], dashDistance = 1\<rparr>"
  by code_simp

lemma wit_dash_not_all: "\<not> bitset_all (bytesToBitset 6 wit_dash_bytes)"
  by code_simp

text \<open>C8, as stated, fails: with dash bits 0 to 3 set and a dash length of 2048 the pattern
  is \<open>[4]\<close> and the distance is floored to 1, so the sum is 5, above
  \<open>ceil(2048 / 1024) + 1 = 3\<close>.\<close>

theorem pen_dash_bound_counterexample:
  "\<not> bitset_all (bytesToBitset 6 wit_dash_bytes) \<and>
   \<not> (sum_list (dashPattern (decodeDash wit_dash_bytes 2048)) +
        dashDistance (decodeDash wit_dash_bytes 2048)
          \<le> \<lceil>real (unat (2048 :: u16)) / 1024\<rceil> + 1)"
  by (simp add: wit_dash_decode wit_dash_not_all)

text \<open>C8, amended.  For every pen whose 48 dash bits are not all set, the pattern sums to at
  most 23, the dash distance is \<open>(dashLength div 1024) - sum(pattern)\<close> floored at 1, and so
  \<open>sum(pattern) + dashDistance\<close> is the larger of \<open>sum(pattern) + 1\<close> and
  \<open>dashLength div 1024\<close>.  It is at most \<open>ceil(dashLength / 1024) + 1\<close> exactly when
  \<open>sum(pattern)\<close> is at most \<open>ceil(dashLength / 1024)\<close>.\<close>

theorem pen_dash_distance:
  assumes "readNBytes io 6 s = Inr (bytes, s1)"
    and "readU16 io s1 = Inr (dashLength, s2)"
    and "\<not> bitset_all (bytesToBitset 6 bytes)"
  shows "\<exists>d. readPenDash io s = Inr (d, s2) \<and>
      0 \<le> sum_list (dashPattern d) \<and> sum_list (dashPattern d) \<le> 23 \<and>
      dashDistance d = max 1 (int (unat dashLength) div 1024 - sum_list (dashPattern d)) \<and>
      sum_list (dashPattern d) + dashDistance d =
        max (sum_list (dashPattern d) + 1) (int (unat dashLength) div 1024) \<and>
      (sum_list (dashPattern d) + dashDistance d \<le> \<lceil>real (unat dashLength) / 1024\<rceil> + 1
         \<longleftrightarrow> sum_list (dashPattern d) \<le> \<lceil>real (unat dashLength) / 1024\<rceil>)"
proof -
  let ?d = "decodeDash bytes dashLength"
  have r: "readPenDash io s = Inr (?d, s2)"
    using assms(1,2) by (simp add: readPenDash_def)
  have len: "length bytes = 6" using assms(1) by (rule readNBytes_length)
  note f = decodeDash_sum [OF len assms(3), of dashLength]
  have q: "int (unat dashLength) div 1024 \<le> \<lceil>real (unat dashLength) / 1024\<rceil>"
    by (rule div_le_ceiling)
  have m: "sum_list (dashPattern ?d) + dashDistance ?d =
        max (sum_list (dashPattern ?d) + 1) (int (unat dashLength) div 1024)"
    using f by linarith
  have i: "sum_list (dashPattern ?d) + dashDistance ?d \<le> \<lceil>real (unat dashLength) / 1024\<rceil> + 1
         \<longleftrightarrow> sum_list (dashPattern ?d) \<le> \<lceil>real (unat dashLength) / 1024\<rceil>"
    using m q by linarith
  from r f m i show ?thesis by blast
qed

lemma readNBytes_mem:
  assumes "0 \<le> offset s" "offset s < int (length (buffer s))" "0 < n"
    "offset s + int n \<le> int (length (buffer s))"
  shows "readNBytes mem_io n s =
    Inr (take n (drop (nat (offset s)) (buffer s)), s\<lparr>offset := offset s + int n\<rparr>)"
proof -
  have "min n (length (buffer s) - nat (offset s)) = n" using assms by linarith
  then show ?thesis using assms
    by (simp add: readNBytes_def checkStream_def mem_io_def mem_isEnd_def mem_read_def Let_def)
qed

theorem pen_dash_distance_witness:
  "readPenDash mem_io wit_dash_stream =
     Inr (\<lparr>dashPattern = [4], dashDistance = 1\<rparr>, wit_dash_stream\<lparr>offset := 8\<rparr>) \<and>
   \<not> bitset_all (bytesToBitset 6 wit_dash_bytes) \<and>
   sum_list [4] + 1 = max (sum_list [4] + 1) (int (unat (2048 :: u16)) div 1024) \<and>
   \<not> (sum_list [4 :: int] \<le> \<lceil>real (unat (2048 :: u16)) / 1024\<rceil>)"
proof -
  have a: "readNBytes mem_io 6 wit_dash_stream = Inr (wit_dash_bytes, wit_dash_stream\<lparr>offset := 6\<rparr>)"
    by (simp add: readNBytes_mem wit_dash_stream_def wit_dash_bytes_def stream_of_def)
  have b: "readU16 mem_io (wit_dash_stream\<lparr>offset := 6\<rparr>) = Inr (2048, wit_dash_stream\<lparr>offset := 8\<rparr>)"
    by (simp add: readU16_mem wit_dash_stream_def wit_dash_bytes_def stream_of_def)
  have c: "\<not> bitset_all (bytesToBitset 6 wit_dash_bytes)"
    by (rule wit_dash_not_all)
  have r: "readPenDash mem_io wit_dash_stream =
     Inr (\<lparr>dashPattern = [4], dashDistance = 1\<rparr>, wit_dash_stream\<lparr>offset := 8\<rparr>)"
    using pen_dash_distance [OF a b c] by (simp add: readPenDash_def a b wit_dash_decode)
  from r c show ?thesis by simp
qed

section \<open>Bounding boxes\<close>

lemma BoundingBox_ctor_fails_iff:
  "BoundingBox_ctor ps = Inl e \<longleftrightarrow> length ps \<noteq> 4 \<and> e = GenericException"
  by (simp add: BoundingBox_ctor_def Let_def) blast

lemma BoundingBox_ctor_four:
  assumes "length ps = 4"
  shows "\<exists>b. BoundingBox_ctor ps = Inr b \<and> m_points b = ps"
  using assms by (simp add: BoundingBox_ctor_def Let_def)

lemma atan2_zero: "atan2 0 0 = 0" "atan2 0 2 = 0"
  by (simp_all add: atan2_def)

lemma almost_zero_zero: "ZMF_ALMOST_ZERO 0"
  by (simp add: ZMF_ALMOST_ZERO_def ZMF_EPSILON_def)

lemma test_box_nth:
  "length test_box = 4"
  "test_box ! 0 = \<lparr>p_x = 10, p_y = 10\<rparr>" "test_box ! Suc 0 = \<lparr>p_x = 12, p_y = 10\<rparr>"
  "test_box ! 2 = \<lparr>p_x = 12, p_y = 12\<rparr>" "test_box ! 3 = \<lparr>p_x = 10, p_y = 12\<rparr>"
  by (simp_all add: test_box_def)

lemma test_box_distance:
  "Point_distance \<lparr>p_x = 10, p_y = 10\<rparr> \<lparr>p_x = 12, p_y = 10\<rparr> = 2"
  "Point_distance \<lparr>p_x = 10, p_y = 10\<rparr> \<lparr>p_x = 10, p_y = 12\<rparr> = 2"
  by (simp_all add: Point_distance_def)

lemma test_box_ok:
  "BoundingBox_ctor test_box =
     Inr \<lparr>m_points = test_box, m_bbox_width = 2, m_bbox_height = 2,
          m_center = \<lparr>p_x = 11, p_y = 11\<rparr>, m_rotation = 0, m_p1Quadrant = 2, m_p2Quadrant = 1,
          m_mirrorHorizontal = False, m_mirrorVertical = False\<rparr>"
  by (simp add: BoundingBox_ctor_def test_box_nth atan2_zero test_box_distance almost_zero_zero
      quadrant_def Let_def)

lemma repeated_point_nth:
  "length [p, p, p, p] = 4"
  "[p, p, p, p] ! 0 = p" "[p, p, p, p] ! Suc 0 = p" "[p, p, p, p] ! 2 = p" "[p, p, p, p] ! 3 = p"
  by simp_all

lemma repeated_point_ok:
  "BoundingBox_ctor [p, p, p, p] =
     Inr \<lparr>m_points = [p, p, p, p], m_bbox_width = 0, m_bbox_height = 0,
          m_center = \<lparr>p_x = p_x p, p_y = p_y p\<rparr>, m_rotation = 0, m_p1Quadrant = 3, m_p2Quadrant = 3,
          m_mirrorHorizontal = False, m_mirrorVertical = True\<rparr>"
  by (simp add: BoundingBox_ctor_def repeated_point_nth atan2_zero almost_zero_zero
      Point_distance_def quadrant_def Let_def del: One_nat_def)

text \<open>C6, as stated, fails for four identical points: the constructor returns a box of width
  0 and height 0 and does not throw.\<close>

theorem bbox_identical_points_counterexample:
  "BoundingBox_ctor same_point_box \<noteq> Inl GenericException \<and>
   BoundingBox_ctor same_point_box =
     Inr \<lparr>m_points = same_point_box, m_bbox_width = 0, m_bbox_height = 0,
          m_center = \<lparr>p_x = 1, p_y = 1\<rparr>, m_rotation = 0, m_p1Quadrant = 3, m_p2Quadrant = 3,
          m_mirrorHorizontal = False, m_mirrorVertical = True\<rparr>"
  using repeated_point_ok [of "\<lparr>p_x = 1, p_y = 1\<rparr>"] by (simp add: same_point_box_def)

text \<open>C6, amended.  Constructing a BoundingBox fails, with the generic exception, exactly when
  the number of points is not four (fewer or more).  From any four points, identical ones
  included, it constructs a box; from one point repeated four times the box has width 0,
  height 0, rotation 0 and that point as its centre.\<close>

theorem bbox_fails_iff_not_four_points:
  "(BoundingBox_ctor ps = Inl e \<longleftrightarrow> length ps \<noteq> 4 \<and> e = GenericException) \<and>
   (length ps = 4 \<longrightarrow> (\<exists>b. BoundingBox_ctor ps = Inr b \<and> m_points b = ps)) \<and>
   BoundingBox_ctor [p, p, p, p] =
     Inr \<lparr>m_points = [p, p, p, p], m_bbox_width = 0, m_bbox_height = 0,
          m_center = \<lparr>p_x = p_x p, p_y = p_y p\<rparr>, m_rotation = 0, m_p1Quadrant = 3, m_p2Quadrant = 3,
          m_mirrorHorizontal = False, m_mirrorVertical = True\<rparr>"
  using BoundingBox_ctor_fails_iff [of ps e] BoundingBox_ctor_four [of ps]
    repeated_point_ok [of p]
  by blast

theorem bbox_fails_iff_not_four_points_witness:
  "BoundingBox_ctor (take 3 test_box) = Inl GenericException \<and>
   BoundingBox_ctor (test_box @ test_box) = Inl GenericException \<and>
   length test_box = 4 \<and>
   (\<exists>b. BoundingBox_ctor test_box = Inr b \<and> m_points b = test_box \<and>
        m_p1Quadrant b = 2 \<and> m_p2Quadrant b = 1)"
proof -
  have a: "length (take 3 test_box) \<noteq> 4" "length (test_box @ test_box) \<noteq> 4"
    and l: "length test_box = 4"
    by (simp_all add: test_box_def)
  have fewer: "BoundingBox_ctor (take 3 test_box) = Inl GenericException"
    using bbox_fails_iff_not_four_points [of "take 3 test_box" GenericException] a by blast
  have more: "BoundingBox_ctor (test_box @ test_box) = Inl GenericException"
    using bbox_fails_iff_not_four_points [of "test_box @ test_box" GenericException] a by blast
  have four: "\<exists>b. BoundingBox_ctor test_box = Inr b \<and> m_points b = test_box"
    using bbox_fails_iff_not_four_points [of test_box GenericException] l by blast
  from fewer more l four test_box_ok show ?thesis by simp
qed

section \<open>Reference lists\<close>

lemma readU32_mem_le32:
  assumes "0 \<le> offset s" "offset s + 4 \<le> int (length (buffer s))"
  shows "readU32 mem_io s = Inr (le32_at (buffer s) (nat (offset s)), s\<lparr>offset := offset s + 4\<rparr>)"
  using readU32_mem [OF assms] by (simp add: le32_at_def)

lemma upt_0_Suc: "[0..<Suc n] = 0 # map Suc [0..<n]"
proof -
  have "[0..<Suc n] = 0 # [Suc 0..<Suc n]" by (rule upt_conv_Cons) simp
  also have "[Suc 0..<Suc n] = map Suc [0..<n]" by (rule map_Suc_upt [symmetric])
  finally show ?thesis .
qed

lemma readU32s_mem:
  assumes "0 \<le> offset s" "offset s + 4 * int n \<le> int (length (buffer s))"
  shows "readU32s mem_io n s =
    Inr (map (\<lambda>i. le32_at (buffer s) (nat (offset s) + 4 * i)) [0..<n],
         s\<lparr>offset := offset s + 4 * int n\<rparr>)"
  using assms
proof (induction n arbitrary: s)
  case 0
  then show ?case by simp
next
  case (Suc n)
  let ?s1 = "s\<lparr>offset := offset s + 4\<rparr>"
  have r: "readU32 mem_io s = Inr (le32_at (buffer s) (nat (offset s)), ?s1)"
    using Suc.prems by (intro readU32_mem_le32) simp_all
  have "readU32s mem_io n ?s1 =
    Inr (map (\<lambda>i. le32_at (buffer ?s1) (nat (offset ?s1) + 4 * i)) [0..<n],
         ?s1\<lparr>offset := offset ?s1 + 4 * int n\<rparr>)"
    using Suc.prems by (intro Suc.IH) simp_all
  moreover have "nat (offset s + 4) = nat (offset s) + 4"
    using Suc.prems(1) by simp
  ultimately have i: "readU32s mem_io n ?s1 =
    Inr (map (\<lambda>i. le32_at (buffer s) (nat (offset s) + 4 * Suc i)) [0..<n],
         s\<lparr>offset := offset s + 4 * int (Suc n)\<rparr>)"
    by (simp add: algebra_simps)
  show ?case
    unfolding upt_0_Suc
    by (simp add: r i comp_def del: upt_Suc)
qed

lemma unat_u32_small: "unat (w :: u32) < 2 ^ 63"
proof -
  have "unat w < 2 ^ 32" using unsigned_less [of w] by simp
  also have "(2 :: nat) ^ 32 < 2 ^ 63" by simp
  finally show ?thesis .
qed

lemma limitedRefObjCount_ignores_refListStartOffset:
  "limitedRefObjCount (hdr\<lparr>refListStartOffset := v\<rparr>) pos = limitedRefObjCount hdr pos"
  by (simp add: limitedRefObjCount_def Let_def)

lemma readObjectRefs_ignores_refListStartOffset:
  "readObjectRefs io (hdr\<lparr>refListStartOffset := v\<rparr>) s = readObjectRefs io hdr s"
  by (simp add: readObjectRefs_def limitedRefObjCount_ignores_refListStartOffset Let_def
      cong: if_cong)

lemma readObjectRefs_none:
  "limitedRefObjCount hdr (rvng_tell io s) = 0 \<Longrightarrow> readObjectRefs io hdr s = Inr ([], s)"
  by (simp add: readObjectRefs_def)

lemma map2_same_list:
  "map (\<lambda>(a, b). h a b) (zip (map f xs) (map g xs)) = map (\<lambda>x. h (f x) (g x)) xs"
  by (induction xs) auto

lemma readObjectRefs_mem:
  fixes m :: RVNGStringStream
  assumes cnt: "cnt = limitedRefObjCount hdr (offset m)" "0 < cnt"
    and p: "p = unat (nextObjectOffset hdr - 8 * cnt)"
    and fits: "p + 8 * unat cnt \<le> length (buffer m)"
  shows "readObjectRefs mem_io hdr m =
    Inr (filter (\<lambda>r. ref_id r \<noteq> NO_ID)
           (map (\<lambda>i. \<lparr>ref_id = le32_at (buffer m) (p + 4 * i),
                      ref_tag = le32_at (buffer m) (p + 4 * unat cnt + 4 * i)\<rparr>)
              [0..<unat cnt]),
         m\<lparr>offset := int (p + 8 * unat cnt)\<rparr>)"
proof -
  let ?n = "unat cnt"
  let ?s1 = "m\<lparr>offset := int p\<rparr>"
  let ?s2 = "m\<lparr>offset := int p + 4 * int ?n\<rparr>"
  let ?s3 = "m\<lparr>offset := int (p + 8 * ?n)\<rparr>"
  let ?ids = "map (\<lambda>i. le32_at (buffer m) (p + 4 * i)) [0..<?n]"
  let ?tags = "map (\<lambda>i. le32_at (buffer m) (p + 4 * ?n + 4 * i)) [0..<?n]"
  have t: "rvng_tell mem_io m = offset m" by (simp add: mem_io_def)
  have p1: "int p \<le> int (length (buffer m))" using fits by linarith
  have p2: "p < 2 ^ 63" unfolding p by (rule unat_u32_small)
  have sk: "seek mem_io p m = Inr ?s1"
    by (rule seek_mem [OF p1 p2])
  have f4: "int p + 4 * int ?n \<le> int (length (buffer m))" using fits by linarith
  have f8: "int p + 4 * int ?n + 4 * int ?n \<le> int (length (buffer m))" using fits by linarith
  have "readU32s mem_io ?n ?s1 =
      Inr (map (\<lambda>i. le32_at (buffer ?s1) (nat (offset ?s1) + 4 * i)) [0..<?n],
           ?s1\<lparr>offset := offset ?s1 + 4 * int ?n\<rparr>)"
    using f4 by (intro readU32s_mem) (simp_all del: of_nat_unat)
  then have ids: "readU32s mem_io ?n ?s1 = Inr (?ids, ?s2)"
    by (simp del: of_nat_unat)
  have "readU32s mem_io ?n ?s2 =
      Inr (map (\<lambda>i. le32_at (buffer ?s2) (nat (offset ?s2) + 4 * i)) [0..<?n],
           ?s2\<lparr>offset := offset ?s2 + 4 * int ?n\<rparr>)"
    using f8 by (intro readU32s_mem) (simp_all del: of_nat_unat)
  moreover have "nat (int p + 4 * int ?n) = p + 4 * ?n" by linarith
  ultimately have tags: "readU32s mem_io ?n ?s2 = Inr (?tags, ?s3)"
    by (simp del: of_nat_unat)
  have z: "map (\<lambda>(i, t). \<lparr>ref_id = i, ref_tag = t\<rparr>) (zip ?ids ?tags) =
      map (\<lambda>i. \<lparr>ref_id = le32_at (buffer m) (p + 4 * i),
                 ref_tag = le32_at (buffer m) (p + 4 * ?n + 4 * i)\<rparr>) [0..<?n]"
    by (rule map2_same_list)
  have c: "limitedRefObjCount hdr (rvng_tell mem_io m) = cnt"
    using cnt(1) t by simp
  show ?thesis
    by (simp only: readObjectRefs_def Let_def c cnt(2) if_True p [symmetric] sk sum.case ids
        prod.case tags z)
qed

lemma wit_object_eq:
  "wit_object =
     [44, 0, 0, 0, 0x32, 0, 0, 0, 0, 0, 0, 0, 1, 0, 0, 0, 28, 0, 0, 0, 0, 0, 0, 0, 5, 0, 0, 0,
      0x11, 0x11, 0x11, 0x11, 1, 0, 0, 0, 0x22, 0x22, 0x22, 0x22, 2, 0, 0, 0]"
  by code_simp

lemma wit_object_length: "length wit_object = 44"
  by code_simp

lemma wit_object_read_header:
  "readObjectHeader mem_io 44 (stream_of wit_object) =
     Inr (wit_object_header, \<lparr>buffer = wit_object, offset = 28, seekEnd = True\<rparr>)"
proof -
  let ?at = "\<lambda>k. \<lparr>buffer = wit_object, offset = k, seekEnd = True\<rparr>"
  have a: "readU32 mem_io (?at 0) = Inr (44, ?at 4)"
    by (simp add: readU32_mem wit_object_length) (simp add: wit_object_eq)
  have b: "readU8 mem_io (?at 4) = Inr (0x32, ?at 5)"
    by (simp add: readU8_mem wit_object_length) (simp add: wit_object_eq)
  have c: "skip mem_io 7 (?at 5) = Inr (?at 12)"
    by (simp add: skip_mem wit_object_length)
  have d: "readU32 mem_io (?at 12) = Inr (1, ?at 16)"
    by (simp add: readU32_mem wit_object_length) (simp add: wit_object_eq)
  have e: "readU32 mem_io (?at 16) = Inr (28, ?at 20)"
    by (simp add: readU32_mem wit_object_length) (simp add: wit_object_eq)
  have f: "skip mem_io 4 (?at 20) = Inr (?at 24)"
    by (simp add: skip_mem wit_object_length)
  have g: "readU32 mem_io (?at 24) = Inr (5, ?at 28)"
    by (simp add: readU32_mem wit_object_length) (simp add: wit_object_eq)
  have t: "rvng_tell mem_io (?at 0) = 0" by (simp add: mem_io_def)
  show ?thesis
    by (simp add: readObjectHeader_def stream_of_def a b c d e f g t wit_object_header_def
        parseObjectType_def NO_ID_def)
qed

lemma wit_object_count: "limitedRefObjCount wit_object_header 28 = 1"
  by (simp add: limitedRefObjCount_def wit_object_header_def long_div_def)

lemma wit_object_refs:
  "readObjectRefs mem_io wit_object_header \<lparr>buffer = wit_object, offset = 28, seekEnd = True\<rparr> =
     Inr ([\<lparr>ref_id = 0x22222222, ref_tag = 2\<rparr>],
          \<lparr>buffer = wit_object, offset = 44, seekEnd = True\<rparr>)"
proof -
  let ?m = "\<lparr>buffer = wit_object, offset = 28, seekEnd = True\<rparr>"
  have c: "1 = limitedRefObjCount wit_object_header (offset ?m)"
    by (simp add: wit_object_count)
  have p: "36 = unat (nextObjectOffset wit_object_header - 8 * 1)"
    by (simp add: wit_object_header_def)
  have f: "36 + 8 * unat (1 :: u32) \<le> length (buffer ?m)"
    by (simp add: wit_object_length)
  have i: "le32_at wit_object 36 = 0x22222222" "le32_at wit_object 40 = 2"
    by (simp_all add: le32_at_def wit_object_eq)
  from readObjectRefs_mem [OF c _ p f] show ?thesis
    by (simp add: i NO_ID_def)
qed

lemma wit_object_refs_spec:
  "readObjectRefs_spec mem_io wit_object_header \<lparr>buffer = wit_object, offset = 28, seekEnd = True\<rparr> =
     Inr ([\<lparr>ref_id = 0x11111111, ref_tag = 1\<rparr>],
          \<lparr>buffer = wit_object, offset = 36, seekEnd = True\<rparr>)"
proof -
  let ?at = "\<lambda>k. \<lparr>buffer = wit_object, offset = k, seekEnd = True\<rparr>"
  have p: "unat (refs_position_spec wit_object_header) = 28" "unat (refObjCount wit_object_header) = Suc 0"
    "refObjCount wit_object_header > 0"
    by (simp_all add: refs_position_spec_def wit_object_header_def)
  have sk: "seek mem_io 28 (?at 28) = Inr (?at 28)"
    by (simp add: seek_mem wit_object_length)
  have a: "readU32 mem_io (?at 28) = Inr (0x11111111, ?at 32)"
    by (simp add: readU32_mem wit_object_length) (simp add: wit_object_eq)
  have b: "readU32 mem_io (?at 32) = Inr (1, ?at 36)"
    by (simp add: readU32_mem wit_object_length) (simp add: wit_object_eq)
  show ?thesis
    by (simp add: readObjectRefs_spec_def p sk a b NO_ID_def)
qed

lemma long_div_nonneg: "0 \<le> a \<Longrightarrow> long_div a 8 = a div 8"
  by (cases "a = 0") (simp_all add: long_div_def)

lemma limitedRefObjCount_unchanged:
  assumes "8 * int (unat (refObjCount hdr)) \<le> int (unat (nextObjectOffset hdr))"
    and "0 \<le> pos" "pos \<le> int (unat (nextObjectOffset hdr))"
  shows "limitedRefObjCount hdr pos = refObjCount hdr"
proof -
  have "pos div 8 \<le> int (unat (nextObjectOffset hdr)) div 8"
    using assms(3) by (rule zdiv_mono1) simp
  then have "int (unat (refObjCount hdr)) \<le> int (unat (nextObjectOffset hdr)) - pos div 8"
    using assms(1) by linarith
  then show ?thesis
    using assms(2) by (simp add: limitedRefObjCount_def Let_def long_div_nonneg del: of_nat_unat)
qed

text \<open>C5, as stated, fails where it says that a recorded offset greater than 0 is where the list
  is read: for the object of the example the header records 28, the list as the
  specification words it is the pair at 28, and \<open>readObjectRefs\<close> returns the pair at
  \<open>nextObjectOffset - 8 * 1 = 36\<close>.\<close>

theorem refs_position_counterexample:
  "readObjectHeader mem_io 44 (stream_of wit_object) =
     Inr (wit_object_header, \<lparr>buffer = wit_object, offset = 28, seekEnd = True\<rparr>) \<and>
   refListStartOffset wit_object_header > 0 \<and>
   readObjectRefs_spec mem_io wit_object_header \<lparr>buffer = wit_object, offset = 28, seekEnd = True\<rparr> =
     Inr ([\<lparr>ref_id = 0x11111111, ref_tag = 1\<rparr>],
          \<lparr>buffer = wit_object, offset = 36, seekEnd = True\<rparr>) \<and>
   readObjectRefs mem_io wit_object_header \<lparr>buffer = wit_object, offset = 28, seekEnd = True\<rparr> =
     Inr ([\<lparr>ref_id = 0x22222222, ref_tag = 2\<rparr>],
          \<lparr>buffer = wit_object, offset = 44, seekEnd = True\<rparr>)"
  by (simp add: wit_object_read_header wit_object_refs wit_object_refs_spec)
    (simp add: wit_object_header_def)

lemma readObjectHeader_valid:
  assumes r: "readObjectHeader io len s = Inr (hdr, s')"
    and pos: "0 \<le> rvng_tell io s" "rvng_tell io s \<le> int (unat len)"
  shows "8 * int (unat (refObjCount hdr)) \<le> int (unat (nextObjectOffset hdr)) \<and>
         int (unat (nextObjectOffset hdr)) = rvng_tell io s + int (unat (oh_size hdr)) \<and>
         int (unat (nextObjectOffset hdr)) \<le> int (unat len)"
proof -
  define start :: u32 where "start = word_of_int (rvng_tell io s)"
  from r obtain sz cnt rls where
    v: "\<not> (sz = 0 \<or> sz > len - start \<or> rls \<ge> sz \<or> cnt > (sz - rls) div 8)"
    and h: "oh_size hdr = sz" "nextObjectOffset hdr = start + sz" "refObjCount hdr = cnt"
    by (auto simp: readObjectHeader_def Let_def start_def split: sum.splits prod.splits if_splits)
  have len32: "unat len < 2 ^ 32" using unsigned_less [of len] by simp
  have st: "unat start = nat (rvng_tell io s)"
  proof -
    have "nat (rvng_tell io s) < 2 ^ 32" using pos len32 by linarith
    then have "unat (word_of_nat (nat (rvng_tell io s)) :: u32) = nat (rvng_tell io s)"
      by (intro of_nat_inverse) simp_all
    moreover have "(word_of_nat (nat (rvng_tell io s)) :: u32) = start"
      using pos(1) by (simp add: start_def)
    ultimately show ?thesis by simp
  qed
  have tl: "nat (rvng_tell io s) \<le> unat len" using pos by linarith
  have sl: "start \<le> len" using st tl by (simp add: word_le_nat_alt)
  have d: "unat (len - start) = unat len - unat start"
    using sl by (simp add: unat_sub)
  from v have "sz \<le> len - start" by (simp add: not_less)
  then have szle: "unat sz \<le> unat len - unat start" using d by (simp add: word_le_nat_alt)
  then have sum: "unat start + unat sz \<le> unat len" using sl by (simp add: word_le_nat_alt)
  then have nx: "unat (start + sz) = unat start + unat sz"
    using len32 by (simp add: unat_add_lem [THEN iffD1])
  from v have rl: "rls \<le> sz" by (simp add: not_le less_imp_le)
  then have sr: "unat (sz - rls) = unat sz - unat rls" by (simp add: unat_sub)
  from v have "cnt \<le> (sz - rls) div 8" by (simp add: not_less)
  then have "unat cnt \<le> unat ((sz - rls) div 8)" by (simp add: word_le_nat_alt)
  also have "\<dots> = unat (sz - rls) div 8" by (simp add: unat_div)
  also have "\<dots> \<le> unat sz div 8" using sr by (simp add: div_le_mono)
  finally have "8 * unat cnt \<le> unat sz" by linarith
  then have a: "8 * int (unat cnt) \<le> int (unat start + unat sz)" by linarith
  have b: "int (unat start + unat sz) = rvng_tell io s + int (unat sz)"
    using st pos(1) by linarith
  have c: "int (unat start + unat sz) \<le> int (unat len)" using sum by linarith
  show ?thesis unfolding h nx using a b c by blast
qed

lemma readObjectRefs_zero:
  "refObjCount hdr = 0 \<Longrightarrow> readObjectRefs io hdr s = Inr ([], s)"
  by (simp add: readObjectRefs_def limitedRefObjCount_def Let_def)

lemma unat_next_minus_refs:
  fixes nxt cnt :: u32
  assumes "8 * int (unat cnt) \<le> int (unat nxt)"
  shows "unat (nxt - 8 * cnt) = unat nxt - 8 * unat cnt"
proof -
  have n: "unat nxt < 2 ^ 32" using unsigned_less [of nxt] by simp
  have le: "8 * unat cnt \<le> unat nxt" using assms by linarith
  have u8: "unat (8 :: u32) = 8" by simp
  have "unat (8 :: u32) * unat cnt < 2 ^ LENGTH(32)" unfolding u8 using le n by simp
  then have "unat (8 * cnt) = unat (8 :: u32) * unat cnt"
    by (rule unat_mult_lem [THEN iffD1])
  then have m: "unat (8 * cnt) = 8 * unat cnt" unfolding u8 .
  then have "8 * cnt \<le> nxt" using le by (simp add: word_le_nat_alt)
  then have "unat (nxt - 8 * cnt) = unat nxt - unat (8 * cnt)" by (rule unat_sub)
  then show ?thesis unfolding m .
qed

lemma readObjectRefs_in_object:
  fixes m :: RVNGStringStream
  assumes c0: "0 < refObjCount hdr"
    and c8: "8 * int (unat (refObjCount hdr)) \<le> int (unat (nextObjectOffset hdr))"
    and pos: "0 \<le> offset m" "offset m \<le> int (unat (nextObjectOffset hdr))"
    and p: "p = unat (nextObjectOffset hdr) - 8 * unat (refObjCount hdr)"
    and fits: "unat (nextObjectOffset hdr) \<le> length (buffer m)"
  shows "readObjectRefs mem_io hdr m =
    Inr (filter (\<lambda>r. ref_id r \<noteq> NO_ID)
           (map (\<lambda>i. \<lparr>ref_id = le32_at (buffer m) (p + 4 * i),
                      ref_tag = le32_at (buffer m) (p + 4 * unat (refObjCount hdr) + 4 * i)\<rparr>)
              [0..<unat (refObjCount hdr)]),
         m\<lparr>offset := int (unat (nextObjectOffset hdr))\<rparr>)"
proof -
  have l: "refObjCount hdr = limitedRefObjCount hdr (offset m)"
    using limitedRefObjCount_unchanged [OF c8 pos] by simp
  have q: "p = unat (nextObjectOffset hdr - 8 * refObjCount hdr)"
    using unat_next_minus_refs [OF c8] p by simp
  have le: "8 * unat (refObjCount hdr) \<le> unat (nextObjectOffset hdr)" using c8 by linarith
  then have e: "p + 8 * unat (refObjCount hdr) = unat (nextObjectOffset hdr)"
    using p by linarith
  then have f: "p + 8 * unat (refObjCount hdr) \<le> length (buffer m)" using fits by linarith
  from readObjectRefs_mem [OF l c0 q f] show ?thesis unfolding e .
qed

text \<open>C5, amended.  The header's \<open>refListStartOffset\<close> is never consulted by
  \<open>readObjectRefs\<close>.  A count of 0 gives the empty list without moving the stream.  For a
  header with a positive count \<open>n\<close> and \<open>8 * n\<close> at most \<open>nextObjectOffset\<close>, read from a
  position in \<open>[0, nextObjectOffset]\<close> of a stream that holds the object, the list is read at
  the absolute position \<open>nextObjectOffset - 8 * n\<close>: the \<open>n\<close> ids first, then the \<open>n\<close> tags, as
  two parallel arrays; the entries whose id is 0xffffffff are dropped, and the stream is left
  at \<open>nextObjectOffset\<close>.  Every header that \<open>readObjectHeader\<close> returns, read at a position
  inside the input, has \<open>8 * n\<close> at most \<open>nextObjectOffset\<close>.\<close>

theorem refs_read_before_next_object:
  "readObjectRefs io (hdr\<lparr>refListStartOffset := v\<rparr>) s = readObjectRefs io hdr s \<and>
   (refObjCount hdr = 0 \<longrightarrow> readObjectRefs io hdr s = Inr ([], s)) \<and>
   (\<forall>(m :: RVNGStringStream) p.
      0 < refObjCount hdr \<and>
      8 * int (unat (refObjCount hdr)) \<le> int (unat (nextObjectOffset hdr)) \<and>
      0 \<le> offset m \<and> offset m \<le> int (unat (nextObjectOffset hdr)) \<and>
      p = unat (nextObjectOffset hdr) - 8 * unat (refObjCount hdr) \<and>
      unat (nextObjectOffset hdr) \<le> length (buffer m) \<longrightarrow>
      readObjectRefs mem_io hdr m =
        Inr (filter (\<lambda>r. ref_id r \<noteq> NO_ID)
               (map (\<lambda>i. \<lparr>ref_id = le32_at (buffer m) (p + 4 * i),
                          ref_tag = le32_at (buffer m) (p + 4 * unat (refObjCount hdr) + 4 * i)\<rparr>)
                  [0..<unat (refObjCount hdr)]),
             m\<lparr>offset := int (unat (nextObjectOffset hdr))\<rparr>)) \<and>
   (\<forall>len t hdr' t'.
      readObjectHeader io len t = Inr (hdr', t') \<and>
      0 \<le> rvng_tell io t \<and> rvng_tell io t \<le> int (unat len) \<longrightarrow>
      8 * int (unat (refObjCount hdr')) \<le> int (unat (nextObjectOffset hdr')))"
proof (intro conjI allI impI; (elim conjE)?)
  show "readObjectRefs io (hdr\<lparr>refListStartOffset := v\<rparr>) s = readObjectRefs io hdr s"
    by (rule readObjectRefs_ignores_refListStartOffset)
next
  assume "refObjCount hdr = 0"
  then show "readObjectRefs io hdr s = Inr ([], s)"
    by (rule readObjectRefs_zero)
next
  fix m :: RVNGStringStream and p
  assume c0: "0 < refObjCount hdr"
    and c8: "8 * int (unat (refObjCount hdr)) \<le> int (unat (nextObjectOffset hdr))"
    and p0: "0 \<le> offset m" and p1: "offset m \<le> int (unat (nextObjectOffset hdr))"
    and p: "p = unat (nextObjectOffset hdr) - 8 * unat (refObjCount hdr)"
    and f: "unat (nextObjectOffset hdr) \<le> length (buffer m)"
  show "readObjectRefs mem_io hdr m =
        Inr (filter (\<lambda>r. ref_id r \<noteq> NO_ID)
               (map (\<lambda>i. \<lparr>ref_id = le32_at (buffer m) (p + 4 * i),
                          ref_tag = le32_at (buffer m) (p + 4 * unat (refObjCount hdr) + 4 * i)\<rparr>)
                  [0..<unat (refObjCount hdr)]),
             m\<lparr>offset := int (unat (nextObjectOffset hdr))\<rparr>)"
    by (rule readObjectRefs_in_object [OF c0 c8 p0 p1 p f])
next
  fix len t hdr' t'
  assume r: "readObjectHeader io len t = Inr (hdr', t')"
    and a: "0 \<le> rvng_tell io t" and b: "rvng_tell io t \<le> int (unat len)"
  from readObjectHeader_valid [OF r a b]
  show "8 * int (unat (refObjCount hdr')) \<le> int (unat (nextObjectOffset hdr'))" by blast
qed

text \<open>An object with three references, read after its header: the ids are the three words
  at 28, the tags the three words at 40, and the second entry, whose id is 0xffffffff, is
  dropped.  The header is the one \<open>readObjectHeader\<close> returns for the object.\<close>

lemma wit_refs_object_eq:
  "wit_refs_object =
     [52, 0, 0, 0, 0x36, 0, 0, 0, 0, 0, 0, 0, 3, 0, 0, 0, 28, 0, 0, 0, 0, 0, 0, 0, 7, 0, 0, 0,
      0x11, 0x11, 0x11, 0x11, 0xFF, 0xFF, 0xFF, 0xFF, 0x33, 0x33, 0x33, 0x33,
      1, 0, 0, 0, 2, 0, 0, 0, 3, 0, 0, 0]"
  by code_simp

lemma wit_refs_object_length: "length wit_refs_object = 52"
  by code_simp

lemma wit_refs_read_header:
  "readObjectHeader mem_io 52 (stream_of wit_refs_object) =
     Inr (wit_refs_header, \<lparr>buffer = wit_refs_object, offset = 28, seekEnd = True\<rparr>)"
proof -
  let ?at = "\<lambda>k. \<lparr>buffer = wit_refs_object, offset = k, seekEnd = True\<rparr>"
  have a: "readU32 mem_io (?at 0) = Inr (52, ?at 4)"
    by (simp add: readU32_mem wit_refs_object_length) (simp add: wit_refs_object_eq)
  have b: "readU8 mem_io (?at 4) = Inr (0x36, ?at 5)"
    by (simp add: readU8_mem wit_refs_object_length) (simp add: wit_refs_object_eq)
  have c: "skip mem_io 7 (?at 5) = Inr (?at 12)"
    by (simp add: skip_mem wit_refs_object_length)
  have d: "readU32 mem_io (?at 12) = Inr (3, ?at 16)"
    by (simp add: readU32_mem wit_refs_object_length) (simp add: wit_refs_object_eq)
  have e: "readU32 mem_io (?at 16) = Inr (28, ?at 20)"
    by (simp add: readU32_mem wit_refs_object_length) (simp add: wit_refs_object_eq)
  have f: "skip mem_io 4 (?at 20) = Inr (?at 24)"
    by (simp add: skip_mem wit_refs_object_length)
  have g: "readU32 mem_io (?at 24) = Inr (7, ?at 28)"
    by (simp add: readU32_mem wit_refs_object_length) (simp add: wit_refs_object_eq)
  have t: "rvng_tell mem_io (?at 0) = 0" by (simp add: mem_io_def)
  show ?thesis
    by (simp add: readObjectHeader_def stream_of_def a b c d e f g t wit_refs_header_def
        parseObjectType_def NO_ID_def)
qed

theorem refs_read_before_next_object_witness:
  "readObjectHeader mem_io 52 (stream_of wit_refs_object) =
     Inr (wit_refs_header, \<lparr>buffer = wit_refs_object, offset = 28, seekEnd = True\<rparr>) \<and>
   8 * int (unat (refObjCount wit_refs_header)) \<le> int (unat (nextObjectOffset wit_refs_header)) \<and>
   readObjectRefs mem_io (wit_refs_header\<lparr>refListStartOffset := 0\<rparr>)
       \<lparr>buffer = wit_refs_object, offset = 28, seekEnd = True\<rparr> =
     readObjectRefs mem_io wit_refs_header \<lparr>buffer = wit_refs_object, offset = 28, seekEnd = True\<rparr> \<and>
   readObjectRefs mem_io wit_refs_header \<lparr>buffer = wit_refs_object, offset = 28, seekEnd = True\<rparr> =
     Inr ([\<lparr>ref_id = 0x11111111, ref_tag = 1\<rparr>, \<lparr>ref_id = 0x33333333, ref_tag = 3\<rparr>],
          \<lparr>buffer = wit_refs_object, offset = 52, seekEnd = True\<rparr>)"
proof -
  let ?m = "\<lparr>buffer = wit_refs_object, offset = 28, seekEnd = True\<rparr>"
  note T = refs_read_before_next_object
    [where io = mem_io and hdr = wit_refs_header and v = 0 and s = ?m]
  note h = wit_refs_read_header
  have pre: "readObjectHeader mem_io 52 (stream_of wit_refs_object) = Inr (wit_refs_header, ?m) \<and>
      0 \<le> rvng_tell mem_io (stream_of wit_refs_object) \<and>
      rvng_tell mem_io (stream_of wit_refs_object) \<le> int (unat (52 :: u32))"
    using h by (simp add: mem_io_def stream_of_def)
  have a: "8 * int (unat (refObjCount wit_refs_header)) \<le> int (unat (nextObjectOffset wit_refs_header))"
    by (rule T [THEN conjunct2, THEN conjunct2, THEN conjunct2, rule_format, OF pre])
  have b: "readObjectRefs mem_io (wit_refs_header\<lparr>refListStartOffset := 0\<rparr>) ?m =
     readObjectRefs mem_io wit_refs_header ?m"
    by (rule T [THEN conjunct1])
  have n: "unat (refObjCount wit_refs_header) = 3" "unat (nextObjectOffset wit_refs_header) = 52"
    by (simp_all add: wit_refs_header_def)
  have c: "0 < refObjCount wit_refs_header \<and>
      8 * int (unat (refObjCount wit_refs_header)) \<le> int (unat (nextObjectOffset wit_refs_header)) \<and>
      0 \<le> offset ?m \<and> offset ?m \<le> int (unat (nextObjectOffset wit_refs_header)) \<and>
      28 = unat (nextObjectOffset wit_refs_header) - 8 * unat (refObjCount wit_refs_header) \<and>
      unat (nextObjectOffset wit_refs_header) \<le> length (buffer ?m)"
    using a unfolding n by (simp add: wit_refs_object_length) (simp add: wit_refs_header_def)
  have u: "[0..<3] = [0, 1, 2]" by (simp add: upt_rec)
  have i: "le32_at wit_refs_object 28 = 0x11111111" "le32_at wit_refs_object 32 = 0xFFFFFFFF"
    "le32_at wit_refs_object 36 = 0x33333333" "le32_at wit_refs_object 40 = 1"
    "le32_at wit_refs_object 44 = 2" "le32_at wit_refs_object 48 = 3"
    by (simp_all add: le32_at_def wit_refs_object_eq)
  from T [THEN conjunct2, THEN conjunct2, THEN conjunct1, rule_format, OF c]
  have d: "readObjectRefs mem_io wit_refs_header ?m =
     Inr ([\<lparr>ref_id = 0x11111111, ref_tag = 1\<rparr>, \<lparr>ref_id = 0x33333333, ref_tag = 3\<rparr>],
          \<lparr>buffer = wit_refs_object, offset = 52, seekEnd = True\<rparr>)"
    unfolding n u by (simp add: i NO_ID_def)
  from h a b d show ?thesis by simp
qed

section \<open>Curves and their section types\<close>





lemma points_consumed_lines: "points_consumed (replicate n LINE) = int n"
  by (induction n) (simp_all add: points_consumed_def)

















lemma wit_polygon_object_eq:
  "wit_polygon_object =
     [121, 0, 0, 0, 0x34, 0, 0, 0, 0, 0, 0, 0, 0, 0, 0, 0, 0, 0, 0, 0, 0, 0, 0, 0,
      0xFF, 0xFF, 0xFF, 0xFF,
      0, 0, 0, 0, 0, 0, 0, 0,
      0x38, 0x63, 0, 0, 0x38, 0x63, 0, 0, 0x70, 0xC6, 0, 0, 0x38, 0x63, 0, 0,
      0x70, 0xC6, 0, 0, 0x70, 0xC6, 0, 0, 0x38, 0x63, 0, 0, 0x70, 0xC6, 0, 0,
      5, 0, 0, 0, 2, 0, 0, 0, 0, 0, 0, 0, 0, 0, 0, 0,
      0x38, 0x63, 0, 0, 0x38, 0x63, 0, 0, 0x70, 0xC6, 0, 0, 0x38, 0x63, 0, 0,
      1, 0, 0, 0, 2, 0, 0, 0, 0, 0, 0, 0, 0, 0, 0, 0, 0x64, 0, 0, 0, 0]"
  by code_simp

lemma wit_polygon_object_length: "length wit_polygon_object = 121"
  by code_simp


lemma wit_polygon_read_header:
  "readObjectHeader mem_io 121 (stream_of wit_polygon_object) =
     Inr (wit_polygon_header, \<lparr>buffer = wit_polygon_object, offset = 28, seekEnd = True\<rparr>)"
proof -
  let ?at = "\<lambda>k. \<lparr>buffer = wit_polygon_object, offset = k, seekEnd = True\<rparr>"
  note len = wit_polygon_object_length
  note e = wit_polygon_object_eq
  have a: "readU32 mem_io (?at 0) = Inr (121, ?at 4)"
    by (simp add: readU32_mem len) (simp add: e)
  have b: "readU8 mem_io (?at 4) = Inr (0x34, ?at 5)"
    by (simp add: readU8_mem len) (simp add: e)
  have c: "skip mem_io 7 (?at 5) = Inr (?at 12)"
    by (simp add: skip_mem len)
  have d: "readU32 mem_io (?at 12) = Inr (0, ?at 16)"
    by (simp add: readU32_mem len) (simp add: e)
  have f: "readU32 mem_io (?at 16) = Inr (0, ?at 20)"
    by (simp add: readU32_mem len) (simp add: e)
  have g: "skip mem_io 4 (?at 20) = Inr (?at 24)"
    by (simp add: skip_mem len)
  have h: "readU32 mem_io (?at 24) = Inr (0xFFFFFFFF, ?at 28)"
    by (simp add: readU32_mem len) (simp add: e)
  have t: "rvng_tell mem_io (?at 0) = 0" by (simp add: mem_io_def)
  show ?thesis
    by (simp add: readObjectHeader_def stream_of_def a b c d f g h t wit_polygon_header_def
        parseObjectType_def NO_ID_def)
qed



end
